theory Spec2Isabelle
  imports Main "HOL-Library.Word"
begin

section \<open>Machine types and C strings\<close>

text \<open>
  The embedding follows \<^verbatim>\<open>qemu/android/base/Log.cpp\<close> on an LP64 host with a signed
  32-bit \<^verbatim>\<open>int\<close> and an unsigned 64-bit \<^verbatim>\<open>size_t\<close>. A \<^verbatim>\<open>c_int\<close> is read
  with \<open>sint\<close>, a \<^verbatim>\<open>size_t\<close> with \<open>unat\<close>; \<open>+\<close> on both wraps around as
  the machine does.
\<close>

type_synonym c_int = "32 word"
type_synonym size_t = "64 word"

definition NUL :: char where
  "NUL = CHR 0x00"

text \<open>
  A \<^verbatim>\<open>const char*\<close> argument is the list of bytes found at the pointer. The C string
  it denotes ends before the first NUL byte (or where the list ends).
\<close>

definition c_str :: "string \<Rightarrow> string" where
  "c_str m = takeWhile (\<lambda>c. c \<noteq> NUL) m"

definition strlen :: "string \<Rightarrow> size_t" where
  "strlen m = of_nat (length (c_str m))"

definition INT32_MAX :: size_t where
  "INT32_MAX = 2147483647"

section \<open>Formatted output of the C library\<close>

definition digit_char :: "nat \<Rightarrow> char" where
  "digit_char d = ''0123456789abcdef'' ! d"

fun dec :: "nat \<Rightarrow> string" where
  "dec n = (if n < 10 then [digit_char n] else dec (n div 10) @ [digit_char (n mod 10)])"

declare dec.simps [simp del]

fun hex :: "nat \<Rightarrow> string" where
  "hex n = (if n < 16 then [digit_char n] else hex (n div 16) @ [digit_char (n mod 16)])"

declare hex.simps [simp del]

text \<open>The conversions \<^verbatim>\<open>%d\<close>, \<^verbatim>\<open>%ld\<close>, \<^verbatim>\<open>%lld\<close> (signed decimal) and
  \<^verbatim>\<open>%u\<close>, \<^verbatim>\<open>%lu\<close>, \<^verbatim>\<open>%llu\<close> (unsigned decimal).\<close>

definition fmt_d :: "int \<Rightarrow> string" where
  "fmt_d i = (if i < 0 then CHR ''-'' # dec (nat (- i)) else dec (nat i))"

definition fmt_u :: "nat \<Rightarrow> string" where
  "fmt_u n = dec n"

text \<open>The conversion \<^verbatim>\<open>%02x\<close>: lower-case hexadecimal, zero-padded to two digits.\<close>

definition fmt_02x :: "nat \<Rightarrow> string" where
  "fmt_02x n = replicate (2 - length (hex n)) CHR ''0'' @ hex n"

text \<open>
  The conversion \<^verbatim>\<open>%.*s\<close> with precision \<open>p\<close>, as the C standard describes it:
  the bytes of the C string, at most \<open>p\<close> of them; a negative precision counts as none
  given. A call of \<^verbatim>\<open>fprintf\<close> writes this text only while its whole output stays
  within \<^verbatim>\<open>INT_MAX\<close> bytes; \<open>line_overflows\<close> below marks the calls that do not.
\<close>

definition fmt_prec_s :: "int \<Rightarrow> string \<Rightarrow> string" where
  "fmt_prec_s p m = c_str (if p < 0 then m else take (nat p) m)"

text \<open>
  \<^verbatim>\<open>snprintf(temp, n, ...)\<close> for a conversion that renders as \<open>text\<close>: the bytes it
  stores in \<^verbatim>\<open>temp\<close> (at most \<open>n - 1\<close> characters and the terminating NUL) and the
  value it returns, the length of the whole rendering.
\<close>

definition snprintf :: "nat \<Rightarrow> string \<Rightarrow> string \<times> c_int" where
  "snprintf n text = (take (n - 1) text @ [NUL], of_nat (length text))"

section \<open>Severities and log parameters\<close>

type_synonym LogSeverity = c_int

text \<open>
  Modelled from the spec: the severity constants of \<^verbatim>\<open>android/base/Log.h\<close>, which is
  not among the sources. The spec gives the ordinal enumeration INFO, WARNING, ERROR,
  FATAL in increasing urgency; these are the indices of \<^verbatim>\<open>kSeverityStrings\<close>.
\<close>

definition LOG_INFO :: LogSeverity where
  "LOG_INFO = 0"

definition LOG_WARNING :: LogSeverity where
  "LOG_WARNING = 1"

definition LOG_ERROR :: LogSeverity where
  "LOG_ERROR = 2"

definition LOG_FATAL :: LogSeverity where
  "LOG_FATAL = 3"

definition LOG_NUM_SEVERITIES :: LogSeverity where
  "LOG_NUM_SEVERITIES = 4"

record LogParams =
  file_name :: string
  lineno :: c_int
  severity :: LogSeverity

definition kSeverityStrings :: "string list" where
  "kSeverityStrings = [''INFO'', ''WARNING'', ''ERROR'', ''FATAL'']"

definition severityLevelToString :: "LogSeverity \<Rightarrow> string" where
  "severityLevelToString sev =
     (if 0 \<le> sint sev \<and> sint sev < sint LOG_NUM_SEVERITIES
      then kSeverityStrings ! nat (sint sev)
      else ''UNKNOWN'')"

section \<open>The process: global variables, standard error, termination\<close>

text \<open>
  \<open>gLogOutput\<close> is the sink pointer (\<open>None\<close> is \<^verbatim>\<open>NULL\<close>, \<open>Some p\<close> the sink
  object at address \<open>p\<close>); \<open>err_stream\<close> holds the bytes written to standard error so
  far; \<open>exit_status\<close> is \<open>Some st\<close> once \<^verbatim>\<open>exit(st)\<close> has been called, after which no
  further statement of the program runs.

  \<open>err_overflow\<close> is set once an \<^verbatim>\<open>fprintf\<close> to standard error has been asked for
  more than \<^verbatim>\<open>INT_MAX\<close> bytes. The value \<^verbatim>\<open>fprintf\<close> returns is an \<^verbatim>\<open>int\<close>, so such
  a call fails (\<^verbatim>\<open>EOVERFLOW\<close>), and the bytes it has put out before failing are the C
  library's own affair: it may pad a text of more than \<^verbatim>\<open>INT_MAX\<close> bytes with spaces,
  and it may drop the end of the line. So \<open>err_stream\<close> is what standard error holds
  only while \<open>err_overflow\<close> is \<open>False\<close>; after that it is the text the format
  strings describe and no more.
\<close>

record process =
  gLogOutput :: "nat option"
  gDcheckLevel :: bool
  err_stream :: string
  err_overflow :: bool
  exit_status :: "c_int option"
  errno :: c_int

text \<open>The virtual method \<^verbatim>\<open>LogOutput::logMessage\<close> of the sink at an address: a
  parameter of the model, since sinks are written by the users of this file.\<close>

type_synonym sink_method =
  "nat \<Rightarrow> LogParams \<Rightarrow> string \<Rightarrow> size_t \<Rightarrow> process \<Rightarrow> process"

text \<open>
  The line that the format \<^verbatim>\<open>%s:%s:%d:%.*s\<close> of \<open>defaultLogMessage\<close> (with
  the newline that follows it) describes, the precision being \<^verbatim>\<open>int(messageLen)\<close>;
  and whether that line is longer than \<^verbatim>\<open>fprintf\<close> can report, in which case the
  call fails.
\<close>

definition default_line :: "LogParams \<Rightarrow> string \<Rightarrow> size_t \<Rightarrow> string" where
  "default_line params message messageLen =
     severityLevelToString (severity params) @ '':'' @
     c_str (file_name params) @ '':'' @
     fmt_d (sint (lineno params)) @ '':'' @
     fmt_prec_s (sint (ucast messageLen :: c_int)) message @ [CHR 0x0A]"

definition line_overflows :: "LogParams \<Rightarrow> string \<Rightarrow> size_t \<Rightarrow> bool" where
  "line_overflows params message messageLen \<longleftrightarrow>
     2147483647 < length (default_line params message messageLen)"

text \<open>The result of \<^verbatim>\<open>fprintf\<close> is not looked at, so \<^verbatim>\<open>exit(1)\<close> is reached whether
  or not the line could be written.\<close>

definition defaultLogMessage :: "LogParams \<Rightarrow> string \<Rightarrow> size_t \<Rightarrow> process \<Rightarrow> process" where
  "defaultLogMessage params message messageLen w =
     (let w1 = w\<lparr>err_stream := err_stream w @ default_line params message messageLen,
                  err_overflow := err_overflow w \<or> line_overflows params message messageLen\<rparr>
      in if sint LOG_FATAL \<le> sint (severity params)
         then w1\<lparr>exit_status := Some 1\<rparr>
         else w1)"

definition logMessage ::
  "sink_method \<Rightarrow> LogParams \<Rightarrow> string \<Rightarrow> size_t \<Rightarrow> process \<Rightarrow> process" where
  "logMessage recv params message messageLen w =
     (case gLogOutput w of
        Some p \<Rightarrow> recv p params message messageLen w
      | None \<Rightarrow> defaultLogMessage params message messageLen w)"

definition setNewOutput :: "nat option \<Rightarrow> process \<Rightarrow> nat option \<times> process" where
  "setNewOutput newOutput w = (gLogOutput w, w\<lparr>gLogOutput := newOutput\<rparr>)"

definition dcheckIsEnabled :: "process \<Rightarrow> bool" where
  "dcheckIsEnabled w = gDcheckLevel w"

definition setDcheckLevel :: "bool \<Rightarrow> process \<Rightarrow> bool \<times> process" where
  "setDcheckLevel enabled w = (gDcheckLevel w, w\<lparr>gDcheckLevel := enabled\<rparr>)"

definition getMinLogLevel :: LogSeverity where
  "getMinLogLevel = LOG_INFO"

text \<open>A sink whose \<^verbatim>\<open>logMessage\<close> has an empty body, and the state of a process that
  has just started.\<close>

definition silent_sink :: sink_method where
  "silent_sink p params message messageLen w = w"

definition process_start :: process where
  "process_start =
     \<lparr>gLogOutput = None, gDcheckLevel = False, err_stream = [], err_overflow = False,
      exit_status = None, errno = 0\<rparr>"

section \<open>LogStream: the growable message buffer\<close>

text \<open>
  \<open>mString\<close> is \<open>None\<close> for the \<^verbatim>\<open>NULL\<close> pointer. For an allocated block it
  holds the bytes of the block written so far, from index 0 on; the block itself has
  \<open>mCapacity + 1\<close> bytes (the class only ever changes \<open>mCapacity\<close> together with
  \<^verbatim>\<open>realloc(mString, newCapacity + 1)\<close>), and the bytes past the written ones are
  indeterminate.
\<close>

record LogStream =
  mParams :: LogParams
  mString :: "string option"
  mSize :: size_t
  mCapacity :: size_t

definition LogStream_new :: "string \<Rightarrow> c_int \<Rightarrow> LogSeverity \<Rightarrow> LogStream" where
  "LogStream_new f l sev =
     \<lparr>mParams = \<lparr>file_name = f, lineno = l, severity = sev\<rparr>,
      mString = None, mSize = 0, mCapacity = 0\<rparr>"

text \<open>
  Modelled from the spec: the accessors \<^verbatim>\<open>params()\<close>, \<^verbatim>\<open>string()\<close> and
  \<^verbatim>\<open>size()\<close> of \<^verbatim>\<open>LogStream\<close>, defined in the header \<^verbatim>\<open>android/base/Log.h\<close>,
  which is not among the sources: the record's parameters, the bytes at its buffer
  pointer (none for \<^verbatim>\<open>NULL\<close>) and its logical length.
\<close>

definition LogStream_params :: "LogStream \<Rightarrow> LogParams" where
  "LogStream_params s = mParams s"

definition LogStream_string :: "LogStream \<Rightarrow> string" where
  "LogStream_string s = (case mString s of None \<Rightarrow> [] | Some block \<Rightarrow> block)"

definition LogStream_size :: "LogStream \<Rightarrow> size_t" where
  "LogStream_size s = mSize s"

text \<open>The buffered text: the first \<open>mSize\<close> bytes of the buffer.\<close>

definition message_text :: "LogStream \<Rightarrow> string" where
  "message_text s = take (unat (mSize s)) (LogStream_string s)"

text \<open>The byte \<^verbatim>\<open>mString[i]\<close>, if the buffer exists and that byte has been written.\<close>

definition byte_at :: "LogStream \<Rightarrow> nat \<Rightarrow> char option" where
  "byte_at s i =
     (case mString s of
        None \<Rightarrow> None
      | Some block \<Rightarrow> if i < length block then Some (block ! i) else None)"

text \<open>One round of the growth loop: \<^verbatim>\<open>newCapacity += (newCapacity >> 2) + 32\<close>.\<close>

definition grow :: "size_t \<Rightarrow> size_t" where
  "grow newCapacity = newCapacity + (drop_bit 2 newCapacity + 32)"

text \<open>The loop \<^verbatim>\<open>while (newCapacity < newSize) newCapacity += ...\<close>; \<open>None\<close> when it
  never exits.\<close>

partial_function (option) grow_loop :: "size_t \<Rightarrow> size_t \<Rightarrow> size_t option" where
  "grow_loop newCapacity newSize =
     (if newCapacity < newSize then grow_loop (grow newCapacity) newSize
      else Some newCapacity)"

text \<open>
  \<^verbatim>\<open>LogStream::append(const char* str, size_t len)\<close>. The result is \<open>None\<close> when the
  call does not return normally: the growth loop spins forever, \<^verbatim>\<open>memcpy\<close> reads
  past the \<open>str\<close> object, or the copy and the terminating NUL do not fit the block
  (which the size arithmetic allows only after it has wrapped around). \<^verbatim>\<open>realloc\<close>
  is taken to succeed, as the code takes it.
\<close>

definition append :: "string \<Rightarrow> size_t \<Rightarrow> LogStream \<Rightarrow> LogStream option" where
  "append str len s =
     (if len = 0 \<or> INT32_MAX < len then Some s
      else
        let newSize = mSize s + len in
        case (if mCapacity s < newSize
              then map_option
                     (\<lambda>newCapacity. s\<lparr>mString := Some (LogStream_string s),
                                       mCapacity := newCapacity\<rparr>)
                     (grow_loop (mCapacity s) newSize)
              else Some s) of
          None \<Rightarrow> None
        | Some s1 \<Rightarrow>
            (case mString s1 of
               None \<Rightarrow> None
             | Some block \<Rightarrow>
                 if unat (mSize s1) + unat len + 1 \<le> unat (mCapacity s1 + 1) \<and>
                    unat len \<le> length str
                 then Some (s1\<lparr>mString :=
                                 Some (take (unat (mSize s1)) block @ take (unat len) str @ [NUL]),
                               mSize := mSize s1 + len\<rparr>)
                 else None))"

text \<open>\<^verbatim>\<open>LogStream::append(const char* str)\<close>; \<open>None\<close> is the \<^verbatim>\<open>NULL\<close> argument.\<close>

definition append_cstr :: "string option \<Rightarrow> LogStream \<Rightarrow> LogStream option" where
  "append_cstr str s =
     (case str of
        None \<Rightarrow> Some s
      | Some m \<Rightarrow> if c_str m = [] then Some s else append m (strlen m) s)"

text \<open>
  Modelled from the spec: \<^verbatim>\<open>operator<<(const char*)\<close>, which the destructor of
  \<^verbatim>\<open>ErrnoLogMessage\<close> uses and the header (not among the sources) defines; streaming a
  string is the C-string append.
\<close>

definition stream_cstr :: "string option \<Rightarrow> LogStream \<Rightarrow> LogStream option" where
  "stream_cstr str s = append_cstr str s"

text \<open>
  \<^verbatim>\<open>operator<<(char ch)\<close>. Whether plain \<^verbatim>\<open>char\<close> is signed is the platform's
  choice (it is on x86 and x86-64, the hosts of the emulator): \<open>sg\<close> says so.
  \<open>promote\<close> is the \<^verbatim>\<open>int\<close> that \<open>ch\<close> is promoted to in the comparisons and in
  the variadic call; \<^verbatim>\<open>%02x\<close> reads it as an \<^verbatim>\<open>unsigned int\<close>.
\<close>

definition promote :: "bool \<Rightarrow> char \<Rightarrow> int" where
  "promote sg ch = (if sg \<and> 128 \<le> (of_char ch :: int) then of_char ch - 256 else of_char ch)"

definition stream_char :: "bool \<Rightarrow> char \<Rightarrow> LogStream \<Rightarrow> LogStream option" where
  "stream_char sg ch s =
     (if 32 \<le> promote sg ch \<and> promote sg ch < 127 then append [ch] 1 s
      else
        let (temp, ret) =
              snprintf 5 ([CHR 0x5C, CHR ''x''] @ fmt_02x (nat (promote sg ch mod 2 ^ 32)))
        in append temp 4 s)"

text \<open>\<^verbatim>\<open>operator<<(const void* ptr)\<close>; the rendering of \<^verbatim>\<open>%p\<close> is the platform's and
  a parameter here.\<close>

definition stream_ptr :: "(size_t \<Rightarrow> string) \<Rightarrow> size_t \<Rightarrow> LogStream \<Rightarrow> LogStream option" where
  "stream_ptr fmt_p ptr s =
     (let (temp, ret) = snprintf 20 (fmt_p ptr) in append temp (scast ret) s)"

text \<open>The integer overloads: \<^verbatim>\<open>int\<close>, \<^verbatim>\<open>unsigned\<close>, \<^verbatim>\<open>long\<close>,
  \<^verbatim>\<open>unsigned long\<close>, \<^verbatim>\<open>long long\<close>, \<^verbatim>\<open>unsigned long long\<close>.\<close>

definition stream_int :: "32 word \<Rightarrow> LogStream \<Rightarrow> LogStream option" where
  "stream_int v s =
     (let (temp, ret) = snprintf 20 (fmt_d (sint v)) in append temp (scast ret) s)"

definition stream_unsigned :: "32 word \<Rightarrow> LogStream \<Rightarrow> LogStream option" where
  "stream_unsigned v s =
     (let (temp, ret) = snprintf 20 (fmt_u (unat v)) in append temp (scast ret) s)"

definition stream_long :: "64 word \<Rightarrow> LogStream \<Rightarrow> LogStream option" where
  "stream_long v s =
     (let (temp, ret) = snprintf 20 (fmt_d (sint v)) in append temp (scast ret) s)"

definition stream_unsigned_long :: "64 word \<Rightarrow> LogStream \<Rightarrow> LogStream option" where
  "stream_unsigned_long v s =
     (let (temp, ret) = snprintf 20 (fmt_u (unat v)) in append temp (scast ret) s)"

definition stream_long_long :: "64 word \<Rightarrow> LogStream \<Rightarrow> LogStream option" where
  "stream_long_long v s =
     (let (temp, ret) = snprintf 20 (fmt_d (sint v)) in append temp (scast ret) s)"

definition stream_unsigned_long_long :: "64 word \<Rightarrow> LogStream \<Rightarrow> LogStream option" where
  "stream_unsigned_long_long v s =
     (let (temp, ret) = snprintf 20 (fmt_u (unat v)) in append temp (scast ret) s)"

text \<open>A sequence of \<^verbatim>\<open>append(bytes, length)\<close> calls, each chunk passed with its own
  length.\<close>

fun append_all :: "string list \<Rightarrow> LogStream \<Rightarrow> LogStream option" where
  "append_all [] s = Some s"
| "append_all (c # cs) s =
     (case append c (of_nat (length c)) s of
        None \<Rightarrow> None
      | Some s1 \<Rightarrow> append_all cs s1)"

text \<open>The chunks that \<^verbatim>\<open>append\<close> takes: those of 1 to \<^verbatim>\<open>INT32_MAX\<close> bytes. The
  others it returns from at once.\<close>

definition taken :: "string list \<Rightarrow> string list" where
  "taken cs = filter (\<lambda>c. 0 < length c \<and> length c \<le> 2147483647) cs"

section \<open>LogMessage and ErrnoLogMessage\<close>

text \<open>A \<^verbatim>\<open>LogMessage\<close> owns one \<^verbatim>\<open>LogStream\<close>; its destructor dispatches the
  stream and frees it.\<close>

definition LogMessage_new :: "string \<Rightarrow> c_int \<Rightarrow> LogSeverity \<Rightarrow> LogStream" where
  "LogMessage_new f l sev = LogStream_new f l sev"

definition LogMessage_dtor :: "sink_method \<Rightarrow> LogStream \<Rightarrow> process \<Rightarrow> process" where
  "LogMessage_dtor recv s w =
     logMessage recv (LogStream_params s) (LogStream_string s) (LogStream_size s) w"

record ErrnoLogMessage =
  mStream :: LogStream
  mErrno :: c_int

definition ErrnoLogMessage_new ::
  "string \<Rightarrow> c_int \<Rightarrow> LogSeverity \<Rightarrow> c_int \<Rightarrow> ErrnoLogMessage" where
  "ErrnoLogMessage_new f l sev errnoCode =
     \<lparr>mStream = LogStream_new f l sev, mErrno = errnoCode\<rparr>"

text \<open>
  The destructor of \<^verbatim>\<open>ErrnoLogMessage\<close>. \<open>strerror\<close> is the C library's table of
  error descriptions, a parameter. The result is \<open>None\<close> when a stream operation does
  not return; the assignment to \<^verbatim>\<open>errno\<close> runs only if the dispatch returned, that
  is, if the process has not exited in it.
\<close>

definition ErrnoLogMessage_dtor ::
  "(c_int \<Rightarrow> string) \<Rightarrow> sink_method \<Rightarrow> ErrnoLogMessage \<Rightarrow> process \<Rightarrow> process option" where
  "ErrnoLogMessage_dtor strerror recv m w =
     (case stream_cstr (Some ''Error message: '') (mStream m) of
        None \<Rightarrow> None
      | Some s1 \<Rightarrow>
          (case stream_cstr (Some (strerror (mErrno m))) s1 of
             None \<Rightarrow> None
           | Some s2 \<Rightarrow>
               let w1 = logMessage recv (LogStream_params s2) (LogStream_string s2)
                          (LogStream_size s2) w
               in if exit_status w1 = None then Some (w1\<lparr>errno := mErrno m\<rparr>) else Some w1))"

text \<open>
  Modelled from the spec: the construction of an errno-decorated record. The header's
  macro (not among the sources) passes the current value of \<^verbatim>\<open>errno\<close> as the
  \<open>errnoCode\<close> argument of the constructor.
\<close>

definition PLOG :: "string \<Rightarrow> c_int \<Rightarrow> LogSeverity \<Rightarrow> process \<Rightarrow> ErrnoLogMessage" where
  "PLOG f l sev w = ErrnoLogMessage_new f l sev (errno w)"

text \<open>An excerpt of a platform's error descriptions, and a sink that stores the text it
  receives and overwrites \<^verbatim>\<open>errno\<close>.\<close>

definition strerror_demo :: "c_int \<Rightarrow> string" where
  "strerror_demo e = (if e = 2 then ''No such file or directory'' else ''Unknown error'')"

definition clobbering_sink :: sink_method where
  "clobbering_sink p params message messageLen w =
     w\<lparr>err_stream := err_stream w @ take (unat messageLen) message, errno := 99\<rparr>"

text \<open>A record that holds \<open>2 ^ 32\<close> bytes of text, and one that holds
  \<open>2 ^ 31 + 1\<close>.\<close>

definition long_record :: LogStream where
  "long_record =
     \<lparr>mParams = \<lparr>file_name = ''f.cc'', lineno = 10, severity = LOG_INFO\<rparr>,
      mString = Some (replicate 2147483649 CHR ''a'' @ [NUL]),
      mSize = 2147483649, mCapacity = 2147483649\<rparr>"

definition huge_record :: LogStream where
  "huge_record =
     \<lparr>mParams = \<lparr>file_name = ''f.cc'', lineno = 10, severity = LOG_INFO\<rparr>,
      mString = Some (replicate 4294967296 CHR ''a'' @ [NUL]),
      mSize = 4294967296, mCapacity = 4294967296\<rparr>"

section \<open>Well-formed buffers\<close>

text \<open>
  The states a \<^verbatim>\<open>LogStream\<close> is in between calls: no buffer, length and capacity 0;
  or a buffer whose written bytes are the \<open>mSize\<close> bytes of the text and the NUL after
  them, with \<open>mSize \<le> mCapacity\<close> and a block size \<open>mCapacity + 1\<close> that has not
  wrapped around.
\<close>

definition stream_inv :: "LogStream \<Rightarrow> bool" where
  "stream_inv s =
     (case mString s of
        None \<Rightarrow> mSize s = 0 \<and> mCapacity s = 0
      | Some block \<Rightarrow>
          length block = unat (mSize s) + 1 \<and> block ! unat (mSize s) = NUL \<and>
          mSize s \<le> mCapacity s \<and> unat (mCapacity s) < 2 ^ 64 - 1)"

text \<open>The state after an \<open>append\<close> that copied \<open>len\<close> bytes of \<open>str\<close> and left the
  capacity at \<open>r\<close>.\<close>

definition appended :: "LogStream \<Rightarrow> string \<Rightarrow> size_t \<Rightarrow> size_t \<Rightarrow> LogStream" where
  "appended s str len r =
     s\<lparr>mString := Some (message_text s @ take (unat len) str @ [NUL]),
       mSize := mSize s + len, mCapacity := r\<rparr>"

section \<open>Severity names\<close>

lemma sint32_cases:
  fixes sev :: "32 word"
  assumes "0 \<le> sint sev" "sint sev < 4"
  shows "sev = 0 \<or> sev = 1 \<or> sev = 2 \<or> sev = 3"
proof -
  have "sint sev = 0 \<or> sint sev = 1 \<or> sint sev = 2 \<or> sint sev = 3"
    using assms by linarith
  moreover have "sev = word_of_int (sint sev)" by simp
  ultimately show ?thesis by (metis word_of_int_0 word_of_int_1 word_of_int_numeral)
qed

lemma severityLevelToString_cases:
  "severityLevelToString sev =
     (if sev = LOG_INFO then ''INFO''
      else if sev = LOG_WARNING then ''WARNING''
      else if sev = LOG_ERROR then ''ERROR''
      else if sev = LOG_FATAL then ''FATAL''
      else ''UNKNOWN'')"
proof (cases "0 \<le> sint sev \<and> sint sev < 4")
  case True
  then have "sev = 0 \<or> sev = 1 \<or> sev = 2 \<or> sev = 3"
    using sint32_cases by blast
  then show ?thesis
    by (auto simp: severityLevelToString_def kSeverityStrings_def LOG_INFO_def LOG_WARNING_def
        LOG_ERROR_def LOG_FATAL_def LOG_NUM_SEVERITIES_def)
next
  case False
  then have "sev \<noteq> 0 \<and> sev \<noteq> 1 \<and> sev \<noteq> 2 \<and> sev \<noteq> 3"
    by auto
  with False show ?thesis
    by (auto simp: severityLevelToString_def LOG_INFO_def LOG_WARNING_def
        LOG_ERROR_def LOG_FATAL_def LOG_NUM_SEVERITIES_def)
qed

text \<open>
  C8: \<open>severityLevelToString\<close> returns the matching upper-case literal for each of
  INFO, WARNING, ERROR and FATAL and \<open>''UNKNOWN''\<close> for every other value of the
  severity type, among them -1 and 99. It is a function of its argument alone: it reads
  and writes no state and has no failing branch.
\<close>

theorem severityLevelToString_table:
  "severityLevelToString LOG_INFO = ''INFO'' \<and>
   severityLevelToString LOG_WARNING = ''WARNING'' \<and>
   severityLevelToString LOG_ERROR = ''ERROR'' \<and>
   severityLevelToString LOG_FATAL = ''FATAL'' \<and>
   severityLevelToString sev =
     (if sev = LOG_INFO then ''INFO''
      else if sev = LOG_WARNING then ''WARNING''
      else if sev = LOG_ERROR then ''ERROR''
      else if sev = LOG_FATAL then ''FATAL''
      else ''UNKNOWN'') \<and>
   severityLevelToString (- 1) = ''UNKNOWN'' \<and>
   severityLevelToString 99 = ''UNKNOWN''"
proof -
  have "severityLevelToString LOG_INFO = ''INFO''"
    "severityLevelToString LOG_WARNING = ''WARNING''"
    "severityLevelToString LOG_ERROR = ''ERROR''"
    "severityLevelToString LOG_FATAL = ''FATAL''"
    "severityLevelToString (- 1) = ''UNKNOWN''"
    "severityLevelToString 99 = ''UNKNOWN''"
    by (simp_all add: severityLevelToString_def kSeverityStrings_def LOG_INFO_def
        LOG_WARNING_def LOG_ERROR_def LOG_FATAL_def LOG_NUM_SEVERITIES_def)
  then show ?thesis
    using severityLevelToString_cases [of sev] by simp
qed

section \<open>Dispatch and sink installation\<close>





text \<open>
  C7: \<open>setNewOutput\<close> stores the new sink pointer and returns the one it replaces
  (\<^verbatim>\<open>NULL\<close> if there was none). From no sink, installing \<open>S1\<close> and then
  \<open>S2\<close> returns \<^verbatim>\<open>NULL\<close> and then \<open>S1\<close>; afterwards a dispatch is exactly the
  call of the method of \<open>S2\<close> on the same parameters, message and length.
\<close>

theorem setNewOutput_swaps:
  assumes "gLogOutput w = None"
  shows "fst (setNewOutput newOutput w') = gLogOutput w' \<and>
         gLogOutput (snd (setNewOutput newOutput w')) = newOutput \<and>
         fst (setNewOutput (Some S1) w) = None \<and>
         fst (setNewOutput (Some S2) (snd (setNewOutput (Some S1) w))) = Some S1 \<and>
         gLogOutput (snd (setNewOutput (Some S2) (snd (setNewOutput (Some S1) w)))) = Some S2 \<and>
         (\<forall>params message len.
            logMessage recv params message len
              (snd (setNewOutput (Some S2) (snd (setNewOutput (Some S1) w)))) =
            recv S2 params message len
              (snd (setNewOutput (Some S2) (snd (setNewOutput (Some S1) w)))))"
  using assms by (simp add: setNewOutput_def logMessage_def)

theorem setNewOutput_swaps_witness:
  "gLogOutput process_start = None \<and>
   fst (setNewOutput (Some 1) process_start) = None \<and>
   fst (setNewOutput (Some 2) (snd (setNewOutput (Some 1) process_start))) = Some 1 \<and>
   logMessage (\<lambda>p params message len w. w\<lparr>errno := of_nat p\<rparr>)
       \<lparr>file_name = ''f.cc'', lineno = 10, severity = LOG_INFO\<rparr> ''hello'' 5
       (snd (setNewOutput (Some 2) (snd (setNewOutput (Some 1) process_start)))) =
     process_start\<lparr>gLogOutput := Some 2, errno := 2\<rparr>"
  using setNewOutput_swaps [where w = process_start and ?S1.0 = 1 and ?S2.0 = 2
      and recv = "\<lambda>p params message len w. w\<lparr>errno := of_nat p\<rparr>"]
  by (simp add: process_start_def setNewOutput_def)

section \<open>Appends that do nothing\<close>

text \<open>
  C9: an \<open>append\<close> whose length is zero or above \<^verbatim>\<open>INT32_MAX\<close>, and a C-string
  append of the \<^verbatim>\<open>NULL\<close> pointer or of a string whose first byte is NUL, return the
  buffer as it was: same length, same capacity, same contents.
\<close>

theorem append_noop:
  "(len = 0 \<or> INT32_MAX < len \<longrightarrow> append str len s = Some s) \<and>
   append_cstr None s = Some s \<and>
   (c_str m = [] \<longrightarrow> append_cstr (Some m) s = Some s)"
  by (simp add: append_def append_cstr_def)

theorem append_noop_witness:
  "append ''abc'' 0
     \<lparr>mParams = \<lparr>file_name = ''f.cc'', lineno = 10, severity = LOG_INFO\<rparr>,
      mString = Some (''ab'' @ [NUL]), mSize = 2, mCapacity = 32\<rparr> =
     Some \<lparr>mParams = \<lparr>file_name = ''f.cc'', lineno = 10, severity = LOG_INFO\<rparr>,
           mString = Some (''ab'' @ [NUL]), mSize = 2, mCapacity = 32\<rparr> \<and>
   append ''abc'' 2147483648
     \<lparr>mParams = \<lparr>file_name = ''f.cc'', lineno = 10, severity = LOG_INFO\<rparr>,
      mString = Some (''ab'' @ [NUL]), mSize = 2, mCapacity = 32\<rparr> =
     Some \<lparr>mParams = \<lparr>file_name = ''f.cc'', lineno = 10, severity = LOG_INFO\<rparr>,
           mString = Some (''ab'' @ [NUL]), mSize = 2, mCapacity = 32\<rparr> \<and>
   append_cstr None (LogStream_new ''f.cc'' 10 LOG_INFO) =
     Some (LogStream_new ''f.cc'' 10 LOG_INFO) \<and>
   append_cstr (Some [])
     \<lparr>mParams = \<lparr>file_name = ''f.cc'', lineno = 10, severity = LOG_INFO\<rparr>,
      mString = Some (''ab'' @ [NUL]), mSize = 2, mCapacity = 32\<rparr> =
     Some \<lparr>mParams = \<lparr>file_name = ''f.cc'', lineno = 10, severity = LOG_INFO\<rparr>,
           mString = Some (''ab'' @ [NUL]), mSize = 2, mCapacity = 32\<rparr>"
  using append_noop [of 0 "''abc''"
      "\<lparr>mParams = \<lparr>file_name = ''f.cc'', lineno = 10, severity = LOG_INFO\<rparr>,
        mString = Some (''ab'' @ [NUL]), mSize = 2, mCapacity = 32\<rparr>" "[]"]
    append_noop [of 2147483648 "''abc''"
      "\<lparr>mParams = \<lparr>file_name = ''f.cc'', lineno = 10, severity = LOG_INFO\<rparr>,
        mString = Some (''ab'' @ [NUL]), mSize = 2, mCapacity = 32\<rparr>" "[]"]
    append_noop [of 0 "''abc''" "LogStream_new ''f.cc'' 10 LOG_INFO" "[]"]
  by (simp add: INT32_MAX_def c_str_def)

section \<open>The growth loop and the append engine\<close>

lemma unat_grow:
  assumes "unat x < 2 ^ 63 + 2 ^ 31"
  shows "unat (grow x) = unat x + unat x div 4 + 32"
proof -
  have d: "unat (drop_bit 2 x) = unat x div 4"
    by (simp add: unat_drop_bit_eq drop_bit_eq_div unat_div)
  have "unat (grow x) = (unat x + (unat x div 4 + 32) mod 2 ^ 64) mod 2 ^ 64"
    by (simp add: grow_def unat_word_ariths d)
  also have "\<dots> = unat x + unat x div 4 + 32"
    using assms by simp
  finally show ?thesis .
qed

lemma grow_loop_returns:
  assumes "unat n \<le> 2 ^ 63 + 2 ^ 31"
  shows "\<exists>r. grow_loop c n = Some r \<and> n \<le> r \<and> c \<le> r \<and>
             (c < n \<longrightarrow> unat r \<le> unat n + unat n div 4 + 32)"
  using assms
proof (induction "unat n - unat c" arbitrary: c rule: less_induct)
  case less
  show ?case
  proof (cases "c < n")
    case False
    then show ?thesis
      by (subst grow_loop.simps) simp
  next
    case True
    then have cn: "unat c < unat n" by (simp add: word_less_nat_alt)
    then have g: "unat (grow c) = unat c + unat c div 4 + 32"
      using less.prems by (intro unat_grow) simp
    then have "unat n - unat (grow c) < unat n - unat c"
      using cn by simp
    from less.hyps [OF this less.prems]
    obtain r where r: "grow_loop (grow c) n = Some r" "n \<le> r" "grow c \<le> r"
      "grow c < n \<longrightarrow> unat r \<le> unat n + unat n div 4 + 32"
      by blast
    have "grow_loop c n = Some r"
      using True r(1) by (subst grow_loop.simps) simp
    moreover have "c \<le> r"
      using r(3) g by (simp add: word_le_nat_alt)
    moreover have "unat r \<le> unat n + unat n div 4 + 32"
    proof (cases "grow c < n")
      case True
      with r(4) show ?thesis by simp
    next
      case False
      then have "r = grow c"
        using r(1) by (subst (asm) grow_loop.simps) simp
      then show ?thesis using g cn by simp
    qed
    ultimately show ?thesis using r(2) by blast
  qed
qed


lemma length_message_text:
  "stream_inv s \<Longrightarrow> length (message_text s) = unat (mSize s)"
  by (auto simp: stream_inv_def message_text_def LogStream_string_def split: option.splits)

lemma unat_INT32_MAX: "unat INT32_MAX = 2147483647"
  by (simp add: INT32_MAX_def)

lemma append_returns:
  assumes inv: "stream_inv s"
    and len: "len \<noteq> 0" "len \<le> INT32_MAX"
    and src: "unat len \<le> length str"
    and sz: "unat (mSize s) < 2 ^ 63"
  shows "\<exists>r. append str len s = Some (appended s str len r) \<and>
             mCapacity s \<le> r \<and> mSize s + len \<le> r \<and> unat r < 2 ^ 64 - 1"
proof -
  have ul: "unat len \<le> 2147483647"
    using len(2) by (simp add: word_le_nat_alt unat_INT32_MAX)
  have ns: "unat (mSize s + len) = unat (mSize s) + unat len"
    using ul sz by (intro unat_add_lem [THEN iffD1]) simp
  have nolim: "\<not> (len = 0 \<or> INT32_MAX < len)"
    using len by (simp add: not_less)
  show ?thesis
  proof (cases "mCapacity s < mSize s + len")
    case True
    have "unat (mSize s + len) \<le> 2 ^ 63 + 2 ^ 31"
      using ns ul sz by simp
    from grow_loop_returns [OF this, of "mCapacity s"] True
    obtain r where r: "grow_loop (mCapacity s) (mSize s + len) = Some r"
      "mSize s + len \<le> r" "mCapacity s \<le> r"
      "unat r \<le> unat (mSize s + len) + unat (mSize s + len) div 4 + 32"
      by blast
    have rb: "unat r < 2 ^ 64 - 1"
      using r(4) ns ul sz by simp
    then have r1: "unat (r + 1) = unat r + 1"
      by (simp add: unat_word_ariths)
    have fit: "unat (mSize s) + unat len + 1 \<le> unat (r + 1)"
      using r(2) ns r1 by (simp add: word_le_nat_alt)
    have "append str len s = Some (appended s str len r)"
      using nolim True r(1) fit src
      by (simp add: append_def Let_def appended_def message_text_def)
    then show ?thesis using r(2,3) rb by blast
  next
    case False
    then have le: "mSize s + len \<le> mCapacity s" by (simp add: not_less)
    have "mString s \<noteq> None"
    proof
      assume "mString s = None"
      then have "mSize s = 0" "mCapacity s = 0"
        using inv by (simp_all add: stream_inv_def)
      with le have "len = 0" by simp
      with len(1) show False by simp
    qed
    then obtain block where b: "mString s = Some block" by blast
    have cb: "unat (mCapacity s) < 2 ^ 64 - 1"
      using inv b by (simp add: stream_inv_def)
    then have c1: "unat (mCapacity s + 1) = unat (mCapacity s) + 1"
      by (simp add: unat_word_ariths)
    have fit: "unat (mSize s) + unat len + 1 \<le> unat (mCapacity s + 1)"
      using le ns c1 by (simp add: word_le_nat_alt)
    have "append str len s = Some (appended s str len (mCapacity s))"
      using nolim False b fit src
      by (simp add: append_def Let_def appended_def message_text_def LogStream_string_def)
    then show ?thesis using le cb by auto
  qed
qed

lemma nth_terminator: "(xs @ ys @ [z]) ! (length xs + length ys) = z"
  by (simp add: nth_append)

lemma appended_props:
  assumes inv: "stream_inv s"
    and ns: "unat (mSize s + len) = unat (mSize s) + unat len"
    and src: "unat len \<le> length str"
    and r: "mSize s + len \<le> r" "unat r < 2 ^ 64 - 1"
  shows "stream_inv (appended s str len r)"
    and "message_text (appended s str len r) = message_text s @ take (unat len) str"
    and "byte_at (appended s str len r) (unat (mSize s) + unat len) = Some NUL"
proof -
  have l1: "length (message_text s) = unat (mSize s)"
    by (rule length_message_text [OF inv])
  have l2: "length (take (unat len) str) = unat len"
    using src by simp
  have t: "(message_text s @ take (unat len) str @ [NUL]) ! (unat (mSize s) + unat len) = NUL"
    using nth_terminator [of "message_text s" "take (unat len) str" NUL]
    unfolding l1 l2 .
  show "stream_inv (appended s str len r)"
    using l1 l2 t r ns by (simp add: stream_inv_def appended_def del: length_take)
  show "message_text (appended s str len r) = message_text s @ take (unat len) str"
    using l1 l2 ns by (simp add: message_text_def appended_def LogStream_string_def del: length_take)
  show "byte_at (appended s str len r) (unat (mSize s) + unat len) = Some NUL"
    using l1 l2 t by (simp add: byte_at_def appended_def del: length_take)
qed

text \<open>An append that copies keeps the buffer well-formed: the length stays within the
  capacity and the capacity does not shrink.\<close>

lemma append_invariants:
  assumes inv: "stream_inv s"
    and len: "len \<noteq> 0" "len \<le> INT32_MAX"
    and src: "unat len \<le> length str"
    and sz: "unat (mSize s) < 2 ^ 63"
    and res: "append str len s = Some s'"
  shows "stream_inv s' \<and> mSize s' \<le> mCapacity s' \<and> mCapacity s \<le> mCapacity s' \<and>
         message_text s' = message_text s @ take (unat len) str"
proof -
  from append_returns [OF inv len src sz]
  obtain r where r: "append str len s = Some (appended s str len r)"
    "mCapacity s \<le> r" "mSize s + len \<le> r" "unat r < 2 ^ 64 - 1"
    by blast
  have ul: "unat len \<le> 2147483647"
    using len(2) by (simp add: word_le_nat_alt unat_INT32_MAX)
  have ns: "unat (mSize s + len) = unat (mSize s) + unat len"
    using ul sz by (intro unat_add_lem [THEN iffD1]) simp
  note p = appended_props [OF inv ns src r(3,4)]
  have "s' = appended s str len r" using r(1) res by simp
  then show ?thesis using p(1,2) r(2,3) by (simp add: appended_def)
qed

lemma taken_Cons:
  "taken (c # cs) = (if 0 < length c \<and> length c \<le> 2147483647 then c # taken cs else taken cs)"
  by (simp add: taken_def)

lemma append_all_returns:
  assumes "stream_inv s"
    and "unat (mSize s) + sum_list (map length cs) < 2 ^ 63"
  shows "\<exists>s'. append_all cs s = Some s' \<and> stream_inv s' \<and>
              message_text s' = message_text s @ concat (taken cs) \<and>
              unat (mSize s') = unat (mSize s) + length (concat (taken cs)) \<and>
              mParams s' = mParams s"
  using assms
proof (induction cs arbitrary: s)
  case Nil
  then show ?case by (simp add: taken_def)
next
  case (Cons c cs)
  have cl: "length c < 2 ^ 63" using Cons.prems(2) by simp
  then have ul: "unat (of_nat (length c) :: size_t) = length c"
    by (simp add: unat_of_nat)
  show ?case
  proof (cases "0 < length c \<and> length c \<le> 2147483647")
    case False
    then have "(of_nat (length c) :: size_t) = 0 \<or> INT32_MAX < of_nat (length c)"
      using ul by (auto simp: word_less_nat_alt unat_INT32_MAX)
    then have "append c (of_nat (length c)) s = Some s"
      by (simp add: append_def)
    moreover have "unat (mSize s) + sum_list (map length cs) < 2 ^ 63"
      using Cons.prems(2) by simp
    moreover have "taken (c # cs) = taken cs"
      using False by (simp add: taken_Cons)
    ultimately show ?thesis
      using Cons.IH [OF Cons.prems(1)] by simp
  next
    case True
    let ?len = "of_nat (length c) :: size_t"
    have len: "?len \<noteq> 0" "?len \<le> INT32_MAX"
      using True ul by (auto simp: word_le_nat_alt unat_INT32_MAX)
    have src: "unat ?len \<le> length c" using ul by simp
    have sz: "unat (mSize s) < 2 ^ 63" using Cons.prems(2) by simp
    from append_returns [OF Cons.prems(1) len src sz]
    obtain r where r: "append c ?len s = Some (appended s c ?len r)"
      "mSize s + ?len \<le> r" "unat r < 2 ^ 64 - 1"
      by blast
    have ns: "unat (mSize s + ?len) = unat (mSize s) + unat ?len"
      using ul cl sz by (intro unat_add_lem [THEN iffD1]) simp
    note p = appended_props [OF Cons.prems(1) ns src r(2,3)]
    have sz': "unat (mSize (appended s c ?len r)) + sum_list (map length cs) < 2 ^ 63"
      using Cons.prems(2) ns ul by (simp add: appended_def)
    from Cons.IH [OF p(1) sz']
    obtain s' where s': "append_all cs (appended s c ?len r) = Some s'" "stream_inv s'"
      "message_text s' = message_text (appended s c ?len r) @ concat (taken cs)"
      "unat (mSize s') = unat (mSize (appended s c ?len r)) + length (concat (taken cs))"
      "mParams s' = mParams (appended s c ?len r)"
      by blast
    have "append_all (c # cs) s = Some s'"
      using r(1) s'(1) by simp
    moreover have "message_text s' = message_text s @ concat (taken (c # cs))"
      using s'(3) p(2) True ul by (simp add: taken_Cons)
    moreover have "unat (mSize s') = unat (mSize s) + length (concat (taken (c # cs)))"
      using s'(4) ns ul True by (simp add: taken_Cons appended_def)
    moreover have "mParams s' = mParams s"
      using s'(5) by (simp add: appended_def)
    ultimately show ?thesis using s'(2) by blast
  qed
qed

lemma fresh_inv: "stream_inv (LogStream_new f l sev)"
  by (simp add: stream_inv_def LogStream_new_def)

lemma inv_terminated:
  assumes "stream_inv s" "0 < unat (mSize s)"
  shows "byte_at s (unat (mSize s)) = Some NUL"
proof (cases "mString s")
  case None
  with assms show ?thesis by (simp add: stream_inv_def)
next
  case (Some block)
  with assms(1) show ?thesis by (simp add: stream_inv_def byte_at_def)
qed

text \<open>
  C3, amended: for every sequence of chunks appended to a fresh buffer (all the chunks
  together below \<open>2 ^ 63\<close> bytes, the largest size of an object), with \<open>L\<close> the total
  length of the chunks that \<open>append\<close> takes (those of 1 to \<^verbatim>\<open>INT32_MAX\<close> bytes), every
  call returns, the logical length is \<open>L\<close>, the first \<open>L\<close> bytes of the buffer are the
  taken chunks in order, and if \<open>L > 0\<close> the byte at index \<open>L\<close> is NUL, whatever the
  chunk sizes and however often the capacity grew.
\<close>

theorem append_all_fresh:
  assumes "sum_list (map length cs) < 2 ^ 63"
  shows "\<exists>s. append_all cs (LogStream_new f l sev) = Some s \<and>
             unat (mSize s) = length (concat (taken cs)) \<and>
             message_text s = concat (taken cs) \<and>
             (0 < length (concat (taken cs)) \<longrightarrow>
                byte_at s (length (concat (taken cs))) = Some NUL)"
proof -
  have z: "unat (mSize (LogStream_new f l sev)) = 0" "message_text (LogStream_new f l sev) = []"
    by (simp_all add: LogStream_new_def message_text_def LogStream_string_def)
  have "unat (mSize (LogStream_new f l sev)) + sum_list (map length cs) < 2 ^ 63"
    using assms z by simp
  from append_all_returns [OF fresh_inv this]
  obtain s where s: "append_all cs (LogStream_new f l sev) = Some s" "stream_inv s"
    "message_text s = concat (taken cs)" "unat (mSize s) = length (concat (taken cs))"
    using z by auto
  have "0 < length (concat (taken cs)) \<longrightarrow> byte_at s (length (concat (taken cs))) = Some NUL"
    using inv_terminated [OF s(2)] s(4) by simp
  with s show ?thesis by blast
qed

lemma append_all_example:
  "append_all [''ab'', ''cde''] (LogStream_new ''f.cc'' 10 LOG_INFO) =
     Some \<lparr>mParams = \<lparr>file_name = ''f.cc'', lineno = 10, severity = LOG_INFO\<rparr>,
           mString = Some (''abcde'' @ [NUL]), mSize = 5, mCapacity = 32\<rparr>"
  by (simp add: append_def LogStream_new_def INT32_MAX_def grow_loop.simps grow_def
      LogStream_string_def Let_def)

theorem append_all_fresh_witness:
  "sum_list (map length [''ab'', [], replicate 40 CHR ''x'']) < (2::nat) ^ 63 \<and>
   (\<exists>s. append_all [''ab'', [], replicate 40 CHR ''x''] (LogStream_new ''f.cc'' 10 LOG_INFO) = Some s \<and>
        unat (mSize s) = 42 \<and>
        message_text s = ''ab'' @ replicate 40 CHR ''x'' \<and>
        byte_at s 42 = Some NUL)"
  using append_all_fresh [of "[''ab'', [], replicate 40 CHR ''x'']" "''f.cc''" 10 LOG_INFO]
  by (simp add: taken_def)

text \<open>
  C3, as stated, fails at \<open>L = 0\<close>: after a zero-length append to a fresh buffer the
  length is 0 and \<open>mString\<close> is still \<^verbatim>\<open>NULL\<close>, so there is no byte at index 0.
  It also fails for a chunk above \<^verbatim>\<open>INT32_MAX\<close> bytes, which \<open>append\<close> drops: the
  length stays 0.
\<close>

theorem append_all_empty_counterexample:
  "append_all [[]] (LogStream_new ''f.cc'' 10 LOG_INFO) =
     Some (LogStream_new ''f.cc'' 10 LOG_INFO) \<and>
   mSize (LogStream_new ''f.cc'' 10 LOG_INFO) = 0 \<and>
   byte_at (LogStream_new ''f.cc'' 10 LOG_INFO) 0 = None \<and>
   append_all [replicate 2147483648 CHR ''a''] (LogStream_new ''f.cc'' 10 LOG_INFO) =
     Some (LogStream_new ''f.cc'' 10 LOG_INFO)"
  by (simp add: append_def byte_at_def LogStream_new_def INT32_MAX_def)

text \<open>
  C10: for every current capacity \<open>c\<close> and every length \<open>len\<close> with
  \<open>0 < len \<le> 2 ^ 31 - 1\<close>, on a buffer whose current size is below \<open>2 ^ 63\<close>, the
  growth loop started at \<open>c\<close> exits with a capacity of at least size + len; every round
  it runs adds at least 32; and \<open>append\<close> on a well-formed buffer, given a source of
  \<open>len\<close> bytes, returns.
\<close>

theorem append_terminates:
  assumes "len \<noteq> 0" "len \<le> INT32_MAX" "unat (mSize s) < 2 ^ 63"
  shows "(\<exists>r. grow_loop c (mSize s + len) = Some r \<and> mSize s + len \<le> r) \<and>
         (\<forall>x. x < mSize s + len \<longrightarrow> unat x + 32 \<le> unat (grow x)) \<and>
         (stream_inv s \<longrightarrow> unat len \<le> length str \<longrightarrow> (\<exists>s'. append str len s = Some s'))"
proof -
  have ul: "unat len \<le> 2147483647"
    using assms(2) by (simp add: word_le_nat_alt unat_INT32_MAX)
  have ns: "unat (mSize s + len) = unat (mSize s) + unat len"
    using ul assms(3) by (intro unat_add_lem [THEN iffD1]) simp
  have b: "unat (mSize s + len) \<le> 2 ^ 63 + 2 ^ 31"
    using ns ul assms(3) by simp
  have 1: "\<exists>r. grow_loop c (mSize s + len) = Some r \<and> mSize s + len \<le> r"
    using grow_loop_returns [OF b, of c] by blast
  have 2: "\<forall>x. x < mSize s + len \<longrightarrow> unat x + 32 \<le> unat (grow x)"
  proof (intro allI impI)
    fix x assume "x < mSize s + len"
    then have "unat x < 2 ^ 63 + 2 ^ 31"
      using b by (simp add: word_less_nat_alt)
    from unat_grow [OF this] show "unat x + 32 \<le> unat (grow x)" by simp
  qed
  have 3: "stream_inv s \<longrightarrow> unat len \<le> length str \<longrightarrow> (\<exists>s'. append str len s = Some s')"
    using append_returns [OF _ assms(1,2) _ assms(3)] by blast
  from 1 2 3 show ?thesis by blast
qed

theorem append_terminates_witness:
  "(100 :: size_t) \<noteq> 0 \<and> (100 :: size_t) \<le> INT32_MAX \<and>
   unat (mSize (LogStream_new ''f.cc'' 10 LOG_INFO)) < 2 ^ 63 \<and>
   stream_inv (LogStream_new ''f.cc'' 10 LOG_INFO) \<and>
   grow_loop 0 (mSize (LogStream_new ''f.cc'' 10 LOG_INFO) + 100) = Some 122 \<and>
   unat (32 :: size_t) + 32 \<le> unat (grow 32) \<and>
   (\<exists>s'. append (replicate 100 CHR ''x'') 100 (LogStream_new ''f.cc'' 10 LOG_INFO) = Some s')"
  using append_terminates [of 100 "LogStream_new ''f.cc'' 10 LOG_INFO" 0 "replicate 100 CHR ''x''"]
  by (simp add: INT32_MAX_def LogStream_new_def stream_inv_def grow_loop.simps grow_def)

text \<open>The bound on the current size is what keeps the size arithmetic from wrapping
  around; at the top of the range of \<^verbatim>\<open>size_t\<close> a round of the loop comes out below
  where it started.\<close>

lemma grow_wraps: "grow 18446744073709551614 = 4611686018427387933"
  by (simp add: grow_def)

section \<open>The default output format\<close>

lemma int_of_size:
  fixes x :: size_t
  assumes "unat x \<le> 2147483647"
  shows "sint (ucast x :: c_int) = int (unat x)"
proof -
  have u: "uint x = int (unat x)" by simp
  have p: "(2::int) ^ 31 = 2147483648" by simp
  have "0 \<le> int (unat x)" by (rule of_nat_0_le_iff)
  then have lo: "- (2 ^ 31) \<le> uint x" unfolding u p by linarith
  have hi: "uint x < 2 ^ 31" using assms unfolding u p by linarith
  have "sint (ucast x :: c_int) = signed_take_bit 31 (uint x)"
    by (simp add: signed_ucast_eq)
  also have "\<dots> = uint x"
    by (rule signed_take_bit_int_eq_self [OF lo hi])
  finally show ?thesis unfolding u .
qed

lemma c_str_no_NUL: "NUL \<notin> set m \<Longrightarrow> c_str m = m"
  by (auto simp: c_str_def)

lemma c_str_prefix: "take (length (c_str m)) m = c_str m"
  unfolding c_str_def by (rule takeWhile_eq_take [symmetric])

lemma c_str_terminated: "NUL \<notin> set m \<Longrightarrow> c_str (m @ NUL # rest) = m"
  by (induction m) (auto simp: c_str_def)

lemma inv_block:
  assumes "stream_inv s" "mString s = Some block"
  shows "block = message_text s @ [NUL]"
proof -
  have l: "length block = unat (mSize s) + 1" and t: "block ! unat (mSize s) = NUL"
    using assms by (simp_all add: stream_inv_def)
  have "block = take (unat (mSize s)) block @ [block ! unat (mSize s)]"
    using l by (simp add: take_Suc_conv_app_nth [symmetric])
  then show ?thesis
    using assms(2) t by (simp add: message_text_def LogStream_string_def)
qed

text \<open>What the default output does with a record of at most \<^verbatim>\<open>INT_MAX\<close> bytes, whatever
  the bytes are: the text is printed up to its first NUL byte, and the call overflows
  only if the rest of the line makes it too long.\<close>

lemma default_written:
  assumes "gLogOutput w = None" and "unat (mSize s) \<le> 2147483647"
  shows "err_stream (LogMessage_dtor recv s w) =
           err_stream w @
           severityLevelToString (severity (mParams s)) @ '':'' @
           c_str (file_name (mParams s)) @ '':'' @
           fmt_d (sint (lineno (mParams s))) @ '':'' @
           c_str (message_text s) @ [CHR 0x0A]"
    and "err_overflow (LogMessage_dtor recv s w) \<longleftrightarrow>
           err_overflow w \<or>
           2147483647 < length (
             severityLevelToString (severity (mParams s)) @ '':'' @
             c_str (file_name (mParams s)) @ '':'' @
             fmt_d (sint (lineno (mParams s))) @ '':'' @
             c_str (message_text s) @ [CHR 0x0A])"
proof -
  have "fmt_prec_s (sint (ucast (mSize s) :: c_int)) (LogStream_string s) =
          c_str (message_text s)"
    by (simp add: fmt_prec_s_def int_of_size [OF assms(2)] message_text_def)
  then have l: "default_line (mParams s) (LogStream_string s) (mSize s) =
      severityLevelToString (severity (mParams s)) @ '':'' @
      c_str (file_name (mParams s)) @ '':'' @
      fmt_d (sint (lineno (mParams s))) @ '':'' @ c_str (message_text s) @ [CHR 0x0A]"
    by (simp add: default_line_def)
  show "err_stream (LogMessage_dtor recv s w) =
           err_stream w @
           severityLevelToString (severity (mParams s)) @ '':'' @
           c_str (file_name (mParams s)) @ '':'' @
           fmt_d (sint (lineno (mParams s))) @ '':'' @
           c_str (message_text s) @ [CHR 0x0A]"
    using assms(1) l
    by (simp add: LogMessage_dtor_def logMessage_def defaultLogMessage_def Let_def
        LogStream_params_def LogStream_size_def)
  show "err_overflow (LogMessage_dtor recv s w) \<longleftrightarrow>
           err_overflow w \<or>
           2147483647 < length (
             severityLevelToString (severity (mParams s)) @ '':'' @
             c_str (file_name (mParams s)) @ '':'' @
             fmt_d (sint (lineno (mParams s))) @ '':'' @
             c_str (message_text s) @ [CHR 0x0A])"
    using assms(1)
    by (simp add: LogMessage_dtor_def logMessage_def defaultLogMessage_def Let_def
        LogStream_params_def LogStream_size_def line_overflows_def l)
qed

text \<open>
  C2, amended: with no sink installed, for every record whose buffered text holds no NUL
  byte and whose output line (severity name, file name, line number and text, with the
  three colons and the newline) is at most \<^verbatim>\<open>INT_MAX\<close> = \<open>2 ^ 31 - 1\<close> bytes long, the
  bytes written to standard error are the severity name, the file name, the line number
  in decimal and the text, joined by single colons and followed by one newline, and the
  call that writes them does not overflow. (\<^verbatim>\<open>%.*s\<close> stops at a NUL byte, its
  precision is the length cast to \<^verbatim>\<open>int\<close>, and \<^verbatim>\<open>fprintf\<close> cannot report more than
  \<^verbatim>\<open>INT_MAX\<close> bytes.)
\<close>

theorem default_format:
  assumes "gLogOutput w = None"
    and "stream_inv s"
    and "NUL \<notin> set (message_text s)"
    and "length (severityLevelToString (severity (mParams s)) @ '':'' @
                 c_str (file_name (mParams s)) @ '':'' @
                 fmt_d (sint (lineno (mParams s))) @ '':'' @
                 message_text s @ [CHR 0x0A]) \<le> 2147483647"
  shows "err_stream (LogMessage_dtor recv s w) =
           err_stream w @
           severityLevelToString (severity (mParams s)) @ '':'' @
           c_str (file_name (mParams s)) @ '':'' @
           fmt_d (sint (lineno (mParams s))) @ '':'' @
           message_text s @ [CHR 0x0A] \<and>
         err_overflow (LogMessage_dtor recv s w) = err_overflow w"
proof -
  have "length (message_text s) \<le> 2147483647" using assms(4) by simp
  then have sz: "unat (mSize s) \<le> 2147483647"
    using length_message_text [OF assms(2)] by simp
  have c: "c_str (message_text s) = message_text s"
    by (rule c_str_no_NUL [OF assms(3)])
  show ?thesis
    using default_written [OF assms(1) sz, of recv] assms(4) unfolding c by simp
qed

lemma default_output_example:
  "Option.bind (stream_int 42 (LogMessage_new ''f.cc'' 10 LOG_WARNING)) (stream_cstr (Some ''x'')) =
     Some \<lparr>mParams = \<lparr>file_name = ''f.cc'', lineno = 10, severity = LOG_WARNING\<rparr>,
           mString = Some (''42x'' @ [NUL]), mSize = 3, mCapacity = 32\<rparr>"
  by (simp add: stream_int_def snprintf_def
      append_def INT32_MAX_def LogStream_new_def LogMessage_new_def grow_loop.simps grow_def
      LogStream_string_def Let_def stream_cstr_def append_cstr_def c_str_def strlen_def NUL_def
      fmt_d_def dec.simps digit_char_def)

theorem default_format_witness:
  "gLogOutput process_start = None \<and>
   stream_inv
       \<lparr>mParams = \<lparr>file_name = ''f.cc'', lineno = 10, severity = LOG_WARNING\<rparr>,
        mString = Some (''42x'' @ [NUL]), mSize = 3, mCapacity = 32\<rparr> \<and>
   NUL \<notin> set (message_text
       \<lparr>mParams = \<lparr>file_name = ''f.cc'', lineno = 10, severity = LOG_WARNING\<rparr>,
        mString = Some (''42x'' @ [NUL]), mSize = 3, mCapacity = 32\<rparr>) \<and>
   length (''WARNING:f.cc:10:42x'' @ [CHR 0x0A]) \<le> 2147483647 \<and>
   err_stream (LogMessage_dtor silent_sink
       \<lparr>mParams = \<lparr>file_name = ''f.cc'', lineno = 10, severity = LOG_WARNING\<rparr>,
        mString = Some (''42x'' @ [NUL]), mSize = 3, mCapacity = 32\<rparr> process_start) =
     ''WARNING:f.cc:10:42x'' @ [CHR 0x0A] \<and>
   err_overflow (LogMessage_dtor silent_sink
       \<lparr>mParams = \<lparr>file_name = ''f.cc'', lineno = 10, severity = LOG_WARNING\<rparr>,
        mString = Some (''42x'' @ [NUL]), mSize = 3, mCapacity = 32\<rparr> process_start) = False"
  using default_format [of process_start
      "\<lparr>mParams = \<lparr>file_name = ''f.cc'', lineno = 10, severity = LOG_WARNING\<rparr>,
        mString = Some (''42x'' @ [NUL]), mSize = 3, mCapacity = 32\<rparr>" silent_sink]
  by (simp add: process_start_def message_text_def LogStream_string_def NUL_def stream_inv_def
      severityLevelToString_def kSeverityStrings_def LOG_WARNING_def LOG_NUM_SEVERITIES_def
      c_str_def fmt_d_def dec.simps digit_char_def)

lemma huge_record_inv:
  "stream_inv huge_record \<and> message_text huge_record = replicate 4294967296 CHR ''a''"
  by (simp add: stream_inv_def huge_record_def message_text_def LogStream_string_def nth_append)

lemma huge_out:
  "err_stream (LogMessage_dtor silent_sink huge_record process_start) =
     ''INFO:f.cc:10:'' @ [CHR 0x0A] \<and>
   err_overflow (LogMessage_dtor silent_sink huge_record process_start) = False"
  by (simp add: huge_record_def LogMessage_dtor_def logMessage_def process_start_def
      defaultLogMessage_def default_line_def line_overflows_def
      LogStream_params_def LogStream_size_def
      LogStream_string_def severityLevelToString_def kSeverityStrings_def
      LOG_INFO_def LOG_NUM_SEVERITIES_def LOG_FATAL_def fmt_d_def dec.simps digit_char_def
      fmt_prec_s_def c_str_def NUL_def)

lemma long_record_inv:
  "stream_inv long_record \<and> message_text long_record = replicate 2147483649 CHR ''a''"
  by (simp add: stream_inv_def long_record_def message_text_def LogStream_string_def nth_append)

lemma long_out: "err_overflow (LogMessage_dtor silent_sink long_record process_start)"
proof -
  have "NUL \<notin> set (replicate 2147483649 CHR ''a'')" by (simp add: NUL_def)
  from c_str_terminated [OF this, of "[]"]
  have c: "c_str (replicate 2147483649 CHR ''a'' @ [NUL]) = replicate 2147483649 CHR ''a''" .
  have n: "sint (ucast (2147483649 :: size_t) :: c_int) < 0" by simp
  have "fmt_prec_s (sint (ucast (mSize long_record) :: c_int)) (LogStream_string long_record) =
      replicate 2147483649 CHR ''a''"
    using n by (simp add: fmt_prec_s_def long_record_def LogStream_string_def c)
  then have "2147483647 <
      length (default_line (mParams long_record) (LogStream_string long_record)
        (mSize long_record))"
    by (simp add: default_line_def)
  then show ?thesis
    by (simp add: LogMessage_dtor_def logMessage_def process_start_def defaultLogMessage_def
        Let_def line_overflows_def LogStream_params_def LogStream_size_def)
qed

text \<open>Appends build such records (the capacity is whatever the growth loop arrives
  at).\<close>

lemma built_record:
  assumes t: "concat (taken cs) = replicate n CHR ''a''"
    and sz: "sum_list (map length cs) < 2 ^ 63"
    and n: "0 < n" "n < 2 ^ 64"
  shows "\<exists>cap. append_all cs (LogMessage_new ''f.cc'' 10 LOG_INFO) =
           Some \<lparr>mParams = \<lparr>file_name = ''f.cc'', lineno = 10, severity = LOG_INFO\<rparr>,
                 mString = Some (replicate n CHR ''a'' @ [NUL]),
                 mSize = of_nat n, mCapacity = cap\<rparr>"
proof -
  let ?s0 = "LogStream_new ''f.cc'' 10 LOG_INFO"
  have "unat (mSize ?s0) + sum_list (map length cs) < 2 ^ 63"
    using sz by (simp add: LogStream_new_def)
  from append_all_returns [OF fresh_inv this]
  obtain s where s: "append_all cs ?s0 = Some s" "stream_inv s"
    "message_text s = message_text ?s0 @ concat (taken cs)"
    "unat (mSize s) = unat (mSize ?s0) + length (concat (taken cs))"
    "mParams s = mParams ?s0"
    by blast
  have m: "message_text s = replicate n CHR ''a''"
    using s(3) t by (simp add: message_text_def LogStream_string_def LogStream_new_def)
  have "unat (mSize s) = n"
    using s(4) t by (simp add: LogStream_new_def)
  moreover have "unat (of_nat n :: size_t) = n"
    using n(2) by (simp add: unat_of_nat)
  ultimately have "unat (mSize s) = unat (of_nat n :: size_t)" by simp
  then have z: "mSize s = of_nat n"
    by (rule word_unat_eq_iff [THEN iffD2])
  have "mString s \<noteq> None"
  proof
    assume "mString s = None"
    then have "mSize s = 0" using s(2) by (simp add: stream_inv_def)
    then have "unat (mSize s) = 0" by simp
    with \<open>unat (mSize s) = n\<close> n(1) show False by simp
  qed
  then obtain block where b: "mString s = Some block" by blast
  have "block = replicate n CHR ''a'' @ [NUL]"
    using inv_block [OF s(2) b] m by simp
  then have "s = \<lparr>mParams = \<lparr>file_name = ''f.cc'', lineno = 10, severity = LOG_INFO\<rparr>,
                 mString = Some (replicate n CHR ''a'' @ [NUL]),
                 mSize = of_nat n, mCapacity = mCapacity s\<rparr>"
    using b z s(5) by (simp add: LogStream_new_def)
  then show ?thesis using s(1) by (auto simp: LogMessage_new_def)
qed

lemma huge_record_reachable:
  "\<exists>cap. append_all [replicate 2147483647 CHR ''a'', replicate 2147483647 CHR ''a'',
                        replicate 2 CHR ''a'']
            (LogMessage_new ''f.cc'' 10 LOG_INFO) = Some (huge_record\<lparr>mCapacity := cap\<rparr>)"
proof -
  have "replicate 2147483647 CHR ''a'' @ replicate 2147483647 CHR ''a'' @ replicate 2 CHR ''a'' =
      replicate (2147483647 + (2147483647 + 2)) CHR ''a''"
    by (simp only: replicate_add)
  then have t: "concat (taken [replicate 2147483647 CHR ''a'', replicate 2147483647 CHR ''a'',
                        replicate 2 CHR ''a'']) = replicate 4294967296 CHR ''a''"
    by (simp add: taken_def)
  show ?thesis
    using built_record [OF t] by (simp add: huge_record_def)
qed

lemma long_record_reachable:
  "\<exists>cap. append_all [replicate 2147483647 CHR ''a'', replicate 2 CHR ''a'']
            (LogMessage_new ''f.cc'' 10 LOG_INFO) = Some (long_record\<lparr>mCapacity := cap\<rparr>)"
proof -
  have "replicate 2147483647 CHR ''a'' @ replicate 2 CHR ''a'' =
      replicate (2147483647 + 2) CHR ''a''"
    by (simp only: replicate_add)
  then have t: "concat (taken [replicate 2147483647 CHR ''a'', replicate 2 CHR ''a'']) =
      replicate 2147483649 CHR ''a''"
    by (simp add: taken_def)
  show ?thesis
    using built_record [OF t] by (simp add: long_record_def)
qed

text \<open>
  C2, as stated, fails for a record that holds a NUL byte: after the three bytes
  \<open>a\<close>, NUL, \<open>b\<close> have been appended, the line written ends after \<open>a\<close>. It
  fails for a record of \<open>2 ^ 32\<close> bytes: the precision is 0, and the line is written
  with no text at all. And it fails for a record of \<open>2 ^ 31 + 1\<close> bytes: the line is
  longer than \<^verbatim>\<open>INT_MAX\<close>, and the call that is to write it overflows.
\<close>

theorem default_format_counterexample:
  "map_option (\<lambda>s. (message_text s, err_stream (LogMessage_dtor silent_sink s process_start),
                    err_overflow (LogMessage_dtor silent_sink s process_start)))
     (append [CHR ''a'', NUL, CHR ''b''] 3 (LogMessage_new ''f.cc'' 10 LOG_INFO)) =
     Some ([CHR ''a'', NUL, CHR ''b''], ''INFO:f.cc:10:a'' @ [CHR 0x0A], False) \<and>
   message_text huge_record = replicate 4294967296 CHR ''a'' \<and>
   err_stream (LogMessage_dtor silent_sink huge_record process_start) =
     ''INFO:f.cc:10:'' @ [CHR 0x0A] \<and>
   err_overflow (LogMessage_dtor silent_sink huge_record process_start) = False \<and>
   message_text long_record = replicate 2147483649 CHR ''a'' \<and>
   err_overflow (LogMessage_dtor silent_sink long_record process_start) = True"
proof -
  have "map_option
      (\<lambda>s. (message_text s, err_stream (LogMessage_dtor silent_sink s process_start),
            err_overflow (LogMessage_dtor silent_sink s process_start)))
      (append [CHR ''a'', NUL, CHR ''b''] 3 (LogMessage_new ''f.cc'' 10 LOG_INFO)) =
      Some ([CHR ''a'', NUL, CHR ''b''], ''INFO:f.cc:10:a'' @ [CHR 0x0A], False)"
    by (simp add: append_def INT32_MAX_def LogStream_new_def LogMessage_new_def grow_loop.simps
      grow_def LogStream_string_def Let_def c_str_def NUL_def message_text_def
      LogMessage_dtor_def logMessage_def process_start_def defaultLogMessage_def default_line_def
      line_overflows_def
      LogStream_params_def LogStream_size_def severityLevelToString_def kSeverityStrings_def
      LOG_INFO_def LOG_NUM_SEVERITIES_def LOG_FATAL_def fmt_d_def dec.simps digit_char_def
      fmt_prec_s_def)
  then show ?thesis using huge_record_inv huge_out long_record_inv long_out by simp
qed

section \<open>Streaming integers and characters\<close>

lemma dec_max: "dec 18446744073709551615 = ''18446744073709551615''"
  by (simp add: dec.simps digit_char_def)

lemma dec_min: "dec 9223372036854775808 = ''9223372036854775808''"
  by (simp add: dec.simps digit_char_def)

text \<open>
  C4 at its extreme values: \<^verbatim>\<open>temp\<close> has 20 bytes, so of a rendering of 20
  characters \<^verbatim>\<open>snprintf\<close> stores 19 and a NUL and returns 20, and \<open>append\<close> then
  copies those 20 bytes. Streaming \<^verbatim>\<open>ULLONG_MAX\<close> or \<^verbatim>\<open>LLONG_MIN\<close> into a fresh
  record appends the first 19 characters of the decimal text followed by a NUL byte,
  not the text.
\<close>

theorem stream_unsigned_long_long_max:
  "map_option (\<lambda>s. (message_text s, mSize s))
     (stream_unsigned_long_long 18446744073709551615 (LogStream_new ''f.cc'' 10 LOG_INFO)) =
     Some (''1844674407370955161'' @ [NUL], 20) \<and>
   fmt_u (unat (18446744073709551615 :: 64 word)) = ''18446744073709551615'' \<and>
   map_option (\<lambda>s. (message_text s, mSize s))
     (stream_long_long (- 9223372036854775808) (LogStream_new ''f.cc'' 10 LOG_INFO)) =
     Some (''-922337203685477580'' @ [NUL], 20) \<and>
   fmt_d (sint (- 9223372036854775808 :: 64 word)) = ''-9223372036854775808''"
  by (simp add: stream_unsigned_long_long_def stream_long_long_def snprintf_def fmt_u_def fmt_d_def
      dec_max dec_min append_def INT32_MAX_def LogStream_new_def grow_loop.simps grow_def
      LogStream_string_def message_text_def Let_def)

text \<open>
  C5 where plain \<^verbatim>\<open>char\<close> is signed: the byte \<^verbatim>\<open>0x80\<close> is promoted to the
  \<^verbatim>\<open>int\<close> -128, \<^verbatim>\<open>%02x\<close> renders it as \<^verbatim>\<open>ffffff80\<close>, and the four bytes
  appended are \<^verbatim>\<open>\xff\<close>, not \<^verbatim>\<open>\x80\<close>.
\<close>

theorem stream_char_high_bit:
  "map_option message_text (stream_char True (CHR 0x80) (LogStream_new ''f.cc'' 10 LOG_INFO)) =
     Some [CHR 0x5C, CHR ''x'', CHR ''f'', CHR ''f''] \<and>
   fmt_02x (of_char (CHR 0x80)) = ''80''"
  by (simp add: stream_char_def promote_def snprintf_def fmt_02x_def hex.simps digit_char_def
      append_def INT32_MAX_def LogStream_new_def grow_loop.simps grow_def
      LogStream_string_def message_text_def Let_def)

lemma stream_char_examples:
  "map_option message_text (stream_char sg (CHR 0x01) (LogStream_new ''f.cc'' 10 LOG_INFO)) =
     Some [CHR 0x5C, CHR ''x'', CHR ''0'', CHR ''1''] \<and>
   map_option message_text (stream_char sg CHR ''A'' (LogStream_new ''f.cc'' 10 LOG_INFO)) =
     Some ''A'' \<and>
   map_option message_text (stream_char False (CHR 0x80) (LogStream_new ''f.cc'' 10 LOG_INFO)) =
     Some [CHR 0x5C, CHR ''x'', CHR ''8'', CHR ''0'']"
  by (simp add: stream_char_def promote_def snprintf_def fmt_02x_def hex.simps digit_char_def
      append_def INT32_MAX_def LogStream_new_def grow_loop.simps grow_def
      LogStream_string_def message_text_def Let_def)

text \<open>The defect of the 20-byte \<^verbatim>\<open>temp\<close> reaches the default output: the NUL it
  stores ends the line that \<^verbatim>\<open>%.*s\<close> prints.\<close>

lemma default_output_truncated:
  "map_option (\<lambda>s. err_stream (LogMessage_dtor silent_sink s process_start))
     (Option.bind
        (stream_unsigned_long_long 18446744073709551615 (LogMessage_new ''f.cc'' 10 LOG_INFO))
        (stream_cstr (Some ''x''))) =
     Some (''INFO:f.cc:10:1844674407370955161'' @ [CHR 0x0A])"
  by (simp add: stream_unsigned_long_long_def snprintf_def fmt_u_def 
      dec_max append_def INT32_MAX_def LogStream_new_def LogMessage_new_def grow_loop.simps grow_def
      LogStream_string_def Let_def stream_cstr_def append_cstr_def c_str_def strlen_def NUL_def
      LogMessage_dtor_def logMessage_def process_start_def defaultLogMessage_def default_line_def
      LogStream_params_def LogStream_size_def severityLevelToString_def kSeverityStrings_def
      LOG_INFO_def LOG_NUM_SEVERITIES_def LOG_FATAL_def fmt_d_def dec.simps digit_char_def fmt_prec_s_def)

text \<open>
  Where the rendering fits \<^verbatim>\<open>temp\<close> (at most 19 characters), streaming an integer
  appends exactly its decimal text: every 32-bit value, every \<^verbatim>\<open>long long\<close> above
  \<open>- 10 ^ 18\<close> and every \<^verbatim>\<open>unsigned long long\<close> below \<open>10 ^ 19\<close>.
\<close>

lemma length_dec_le: "n < 10 ^ k \<Longrightarrow> 0 < k \<Longrightarrow> length (dec n) \<le> k"
proof (induction n arbitrary: k rule: dec.induct)
  case (1 n)
  show ?case
  proof (cases "n < 10")
    case True
    then show ?thesis using "1.prems"(2) by (simp add: dec.simps [of n])
  next
    case False
    obtain j where k: "k = Suc j" using "1.prems"(2) by (cases k) auto
    have j: "0 < j"
    proof (rule ccontr)
      assume "\<not> 0 < j"
      then have "k = 1" using k by simp
      with "1.prems"(1) False show False by simp
    qed
    have "n div 10 < 10 ^ j"
      using "1.prems"(1) k by (simp add: less_mult_imp_div_less mult.commute)
    from "1.IH" [OF False this j] show ?thesis
      using False k by (simp add: dec.simps [of n])
  qed
qed

lemma dec_nonempty: "dec n \<noteq> []"
  by (simp add: dec.simps [of n])

lemma fmt_d_nonempty: "fmt_d i \<noteq> []"
  by (simp add: fmt_d_def dec_nonempty)

lemma length_fmt_d_32: "length (fmt_d (sint (v :: 32 word))) \<le> 11"
proof -
  have lo: "- (2 ^ 31) \<le> sint v" using sint_ge [of v] by simp
  have hi: "sint v < 2 ^ 31" using sint_lt [of v] by simp
  show ?thesis
  proof (cases "sint v < 0")
    case True
    have "nat (- sint v) < 10 ^ 10" using lo by simp
    from length_dec_le [OF this] True show ?thesis by (simp add: fmt_d_def)
  next
    case False
    have "nat (sint v) < 10 ^ 10" using hi by simp
    from length_dec_le [OF this] False show ?thesis by (simp add: fmt_d_def)
  qed
qed

lemma length_fmt_u_32: "length (fmt_u (unat (v :: 32 word))) \<le> 10"
proof -
  have "unat v < 2 ^ 32" using unsigned_less [of v] by simp
  then have "unat v < 10 ^ 10" by simp
  from length_dec_le [OF this] show ?thesis by (simp add: fmt_u_def)
qed

lemma snprintf_append_exact:
  assumes inv: "stream_inv s"
    and sz: "unat (mSize s) < 2 ^ 63"
    and ne: "text \<noteq> []"
    and fits: "length text < 20"
  shows "\<exists>s'. (let (temp, ret) = snprintf 20 text in append temp (scast ret) s) = Some s' \<and>
              stream_inv s' \<and> message_text s' = message_text s @ text \<and>
              unat (mSize s') = unat (mSize s) + length text"
proof -
  let ?temp = "take 19 text @ [NUL]"
  let ?len = "scast (of_nat (length text) :: c_int) :: size_t"
  have p: "(2::int) ^ 31 = 2147483648" by simp
  have lo: "- (2 ^ 31) \<le> int (length text)" unfolding p by linarith
  have hi: "int (length text) < 2 ^ 31" using fits unfolding p by linarith
  have "sint (of_nat (length text) :: c_int) = signed_take_bit 31 (int (length text))"
    by (simp add: signed_of_nat)
  also have "\<dots> = int (length text)"
    by (rule signed_take_bit_int_eq_self [OF lo hi])
  finally have sl: "sint (of_nat (length text) :: c_int) = int (length text)" .
  have "?len = of_int (sint (of_nat (length text) :: c_int))"
    by (rule of_int_sint [symmetric])
  then have l: "?len = of_nat (length text)" unfolding sl by simp
  then have ul: "unat ?len = length text"
    using fits by (simp add: unat_of_nat)
  have len: "?len \<noteq> 0" "?len \<le> INT32_MAX"
    using ne fits ul by (auto simp: word_le_nat_alt unat_INT32_MAX unat_eq_zero [symmetric]
        simp del: unat_eq_zero)
  have src: "unat ?len \<le> length ?temp" using ul fits by simp
  from append_returns [OF inv len src sz]
  obtain r where r: "append ?temp ?len s = Some (appended s ?temp ?len r)"
    "mSize s + ?len \<le> r" "unat r < 2 ^ 64 - 1"
    by blast
  have ns: "unat (mSize s + ?len) = unat (mSize s) + unat ?len"
    using ul fits sz by (intro unat_add_lem [THEN iffD1]) simp
  note p = appended_props [OF inv ns src r(2,3)]
  have t: "take (unat ?len) ?temp = text" using ul fits by simp
  have "(let (temp, ret) = snprintf 20 text in append temp (scast ret) s) =
          Some (appended s ?temp ?len r)"
    using r(1) by (simp add: snprintf_def)
  moreover have "message_text (appended s ?temp ?len r) = message_text s @ text"
    using p(2) t by simp
  moreover have "unat (mSize (appended s ?temp ?len r)) = unat (mSize s) + length text"
    using ns ul by (simp add: appended_def)
  ultimately show ?thesis using p(1) by simp
qed

lemma stream_int_exact:
  assumes "stream_inv s" "unat (mSize s) < 2 ^ 63"
  shows "\<exists>s'. stream_int v s = Some s' \<and> stream_inv s' \<and>
              message_text s' = message_text s @ fmt_d (sint v) \<and>
              unat (mSize s') = unat (mSize s) + length (fmt_d (sint v))"
proof -
  have "length (fmt_d (sint v)) < 20" using length_fmt_d_32 [of v] by simp
  from snprintf_append_exact [OF assms fmt_d_nonempty this]
  show ?thesis by (simp add: stream_int_def)
qed

lemma stream_unsigned_exact:
  assumes "stream_inv s" "unat (mSize s) < 2 ^ 63"
  shows "\<exists>s'. stream_unsigned v s = Some s' \<and> stream_inv s' \<and>
              message_text s' = message_text s @ fmt_u (unat v) \<and>
              unat (mSize s') = unat (mSize s) + length (fmt_u (unat v))"
proof -
  have "length (fmt_u (unat v)) < 20" using length_fmt_u_32 [of v] by simp
  moreover have "fmt_u (unat v) \<noteq> []" by (simp add: fmt_u_def dec_nonempty)
  ultimately show ?thesis
    using snprintf_append_exact [OF assms] by (simp add: stream_unsigned_def)
qed

lemma length_fmt_d_64:
  fixes v :: "64 word"
  assumes "- (10 ^ 18) < sint v"
  shows "length (fmt_d (sint v)) < 20"
proof (cases "sint v < 0")
  case True
  have "nat (- sint v) < 10 ^ 18" using assms by simp
  from length_dec_le [OF this] True show ?thesis by (simp add: fmt_d_def)
next
  case False
  have "sint v < 2 ^ 63" using sint_lt [of v] by simp
  then have "nat (sint v) < 10 ^ 19" by simp
  from length_dec_le [OF this] False show ?thesis by (simp add: fmt_d_def)
qed

lemma stream_long_long_exact:
  assumes "stream_inv s" "unat (mSize s) < 2 ^ 63" "- (10 ^ 18) < sint v"
  shows "\<exists>s'. stream_long_long v s = Some s' \<and> stream_inv s' \<and>
              message_text s' = message_text s @ fmt_d (sint v) \<and>
              unat (mSize s') = unat (mSize s) + length (fmt_d (sint v))"
  using snprintf_append_exact [OF assms(1,2) fmt_d_nonempty length_fmt_d_64 [OF assms(3)]]
  by (simp add: stream_long_long_def)

lemma stream_unsigned_long_long_exact:
  assumes "stream_inv s" "unat (mSize s) < 2 ^ 63" "unat v < 10 ^ 19"
  shows "\<exists>s'. stream_unsigned_long_long v s = Some s' \<and> stream_inv s' \<and>
              message_text s' = message_text s @ fmt_u (unat v) \<and>
              unat (mSize s') = unat (mSize s) + length (fmt_u (unat v))"
proof -
  have "length (fmt_u (unat v)) < 20"
    using length_dec_le [OF assms(3)] by (simp add: fmt_u_def)
  moreover have "fmt_u (unat v) \<noteq> []" by (simp add: fmt_u_def dec_nonempty)
  ultimately show ?thesis
    using snprintf_append_exact [OF assms(1,2)] by (simp add: stream_unsigned_long_long_def)
qed


lemma stream_long_eq:
  "stream_long v s = stream_long_long v s \<and>
   stream_unsigned_long v s = stream_unsigned_long_long v s"
  by (simp add: stream_long_def stream_long_long_def stream_unsigned_long_def
      stream_unsigned_long_long_def)

text \<open>
  Streaming a character: a printable one is appended as it is, another byte below
  \<^verbatim>\<open>0x80\<close> (or any other byte where \<^verbatim>\<open>char\<close> is unsigned) as backslash, \<open>x\<close> and
  its two hexadecimal digits; where \<^verbatim>\<open>char\<close> is signed, every byte from \<^verbatim>\<open>0x80\<close>
  on is appended as \<^verbatim>\<open>\xff\<close>.
\<close>

lemma fmt_02x_byte:
  assumes "b < 256"
  shows "fmt_02x b = [digit_char (b div 16), digit_char (b mod 16)]"
proof (cases "b < 16")
  case True
  then show ?thesis by (simp add: fmt_02x_def hex.simps [of b] digit_char_def)
next
  case False
  have "b div 16 < 16" using assms by simp
  then have "hex (b div 16) = [digit_char (b div 16)]" by (simp add: hex.simps [of "b div 16"])
  then show ?thesis using False by (simp add: fmt_02x_def hex.simps [of b])
qed

lemma append_exact:
  assumes inv: "stream_inv s"
    and sz: "unat (mSize s) < 2 ^ 63"
    and len: "0 < n" "n \<le> 20" "n \<le> length str"
  shows "\<exists>s'. append str (of_nat n) s = Some s' \<and> stream_inv s' \<and>
              message_text s' = message_text s @ take n str"
proof -
  let ?len = "of_nat n :: size_t"
  have ul: "unat ?len = n" using len(2) by (simp add: unat_of_nat)
  have l: "?len \<noteq> 0" "?len \<le> INT32_MAX"
    using len ul by (auto simp: word_le_nat_alt unat_INT32_MAX unat_eq_zero [symmetric]
        simp del: unat_eq_zero)
  have src: "unat ?len \<le> length str" using ul len(3) by simp
  from append_returns [OF inv l src sz]
  obtain r where r: "append str ?len s = Some (appended s str ?len r)"
    "mSize s + ?len \<le> r" "unat r < 2 ^ 64 - 1"
    by blast
  have ns: "unat (mSize s + ?len) = unat (mSize s) + unat ?len"
    using ul len(2) sz by (intro unat_add_lem [THEN iffD1]) simp
  note p = appended_props [OF inv ns src r(2,3)]
  show ?thesis using r(1) p(1,2) ul by simp
qed

lemma stream_char_exact:
  assumes inv: "stream_inv s"
    and sz: "unat (mSize s) < 2 ^ 63"
    and plain: "\<not> sg \<or> (of_char ch :: nat) < 128"
  shows "\<exists>s'. stream_char sg ch s = Some s' \<and>
              message_text s' = message_text s @
                (if 32 \<le> (of_char ch :: nat) \<and> (of_char ch :: nat) < 127 then [ch]
                 else [CHR 0x5C, CHR ''x'', digit_char (of_char ch div 16),
                       digit_char (of_char ch mod 16)])"
proof -
  have i: "(of_char ch :: int) = int (of_char ch)" by (simp add: of_nat_of_char)
  have pr: "promote sg ch = int (of_char ch)"
    using plain unfolding promote_def i by auto
  have b: "(of_char ch :: nat) < 256" by simp
  show ?thesis
  proof (cases "32 \<le> (of_char ch :: nat) \<and> (of_char ch :: nat) < 127")
    case True
    from append_exact [OF inv sz, of 1 "[ch]"]
    obtain s' where "append [ch] 1 s = Some s'" "message_text s' = message_text s @ [ch]"
      by auto
    then show ?thesis using True pr by (simp add: stream_char_def)
  next
    case False
    let ?t = "[CHR 0x5C, CHR ''x'', digit_char (of_char ch div 16), digit_char (of_char ch mod 16)]"
    have "(of_char ch :: nat) < 4294967296" using b by linarith
    then have "(of_char ch :: nat) mod 4294967296 = of_char ch" by (rule mod_less)
    then have m: "nat (int (of_char ch :: nat) mod 2 ^ 32) = of_char ch"
      by (simp add: nat_mod_distrib)
    have c: "\<not> (32 \<le> promote sg ch \<and> promote sg ch < 127)"
      using False unfolding pr by linarith
    have f: "fmt_02x (nat (promote sg ch mod 2 ^ 32)) =
        [digit_char (of_char ch div 16), digit_char (of_char ch mod 16)]"
      unfolding pr m by (rule fmt_02x_byte [OF b])
    have "stream_char sg ch s =
        (let (temp, ret) =
               snprintf 5 ([CHR 0x5C, CHR ''x''] @ fmt_02x (nat (promote sg ch mod 2 ^ 32)))
         in append temp 4 s)"
      unfolding stream_char_def by (simp only: c if_False)
    also have "\<dots> = append (?t @ [NUL]) 4 s"
      unfolding f by (simp add: snprintf_def)
    finally have sc: "stream_char sg ch s = append (?t @ [NUL]) 4 s" .
    from append_exact [OF inv sz, of 4 "?t @ [NUL]"]
    obtain s' where "append (?t @ [NUL]) 4 s = Some s'" "message_text s' = message_text s @ ?t"
      by auto
    then show ?thesis
      using False sc by simp
  qed
qed

lemma hex_nonempty: "hex n \<noteq> []"
  by (simp add: hex.simps [of n])

lemma length_hex_ge2: "16 \<le> n \<Longrightarrow> 2 \<le> length (hex n)"
  using hex_nonempty [of "n div 16"]
  by (cases "hex (n div 16)") (simp_all add: hex.simps [of n])

lemma take2_hex: "256 \<le> n \<Longrightarrow> take 2 (hex n) = take 2 (hex (n div 16))"
  using length_hex_ge2 [of "n div 16"] by (simp add: hex.simps [of n])

lemma div16_6: "n div 16 div 16 div 16 div 16 div 16 div 16 = n div (16777216 :: nat)"
  by (simp add: div_mult2_eq [symmetric])

lemma take2_hex_6:
  assumes "268435456 \<le> (n :: nat)"
  shows "take 2 (hex n) = take 2 (hex (n div 16777216))"
proof -
  have d: "\<And>m k :: nat. k * 16 \<le> m \<Longrightarrow> k \<le> m div 16"
    by (simp add: less_eq_div_iff_mult_less_eq)
  have n1: "16777216 \<le> n div 16" using assms by (intro d) simp
  have n2: "1048576 \<le> n div 16 div 16" using n1 by (intro d) simp
  have n3: "65536 \<le> n div 16 div 16 div 16" using n2 by (intro d) simp
  have n4: "4096 \<le> n div 16 div 16 div 16 div 16" using n3 by (intro d) simp
  have n5: "256 \<le> n div 16 div 16 div 16 div 16 div 16" using n4 by (intro d) simp
  have "take 2 (hex n) = take 2 (hex (n div 16))"
    by (rule take2_hex) (use assms in linarith)
  also have "\<dots> = take 2 (hex (n div 16 div 16))"
    by (rule take2_hex) (use n1 in linarith)
  also have "\<dots> = take 2 (hex (n div 16 div 16 div 16))"
    by (rule take2_hex) (use n2 in linarith)
  also have "\<dots> = take 2 (hex (n div 16 div 16 div 16 div 16))"
    by (rule take2_hex) (use n3 in linarith)
  also have "\<dots> = take 2 (hex (n div 16 div 16 div 16 div 16 div 16))"
    by (rule take2_hex) (use n4 in linarith)
  also have "\<dots> = take 2 (hex (n div 16 div 16 div 16 div 16 div 16 div 16))"
    by (rule take2_hex) (use n5 in linarith)
  finally show ?thesis unfolding div16_6 .
qed

lemma take2_hex_high:
  assumes "4278190080 \<le> (n :: nat)" "n < 4294967296"
  shows "take 2 (hex n) = ''ff''"
proof -
  have "n div 16777216 = 255"
    by (rule div_nat_eqI) (use assms in simp_all)
  moreover have "take 2 (hex 255) = ''ff''"
    by (simp add: hex.simps digit_char_def)
  moreover have "take 2 (hex n) = take 2 (hex (n div 16777216))"
    by (rule take2_hex_6) (use assms in linarith)
  ultimately show ?thesis by simp
qed

lemma promote_high:
  assumes "128 \<le> (of_char ch :: nat)"
  shows "nat (promote True ch mod 2 ^ 32) = 4294967040 + of_char ch"
proof -
  let ?b = "of_char ch :: nat"
  have i: "(of_char ch :: int) = int ?b" by (simp add: of_nat_of_char)
  have b: "?b < 256" by simp
  have p32: "(2::int) ^ 32 = 4294967296" by simp
  have pr: "promote True ch = int ?b - 256"
    using assms unfolding promote_def i by simp
  have "(int ?b - 256) mod 4294967296 = (int ?b - 256 + 4294967296) mod 4294967296"
    by (rule mod_add_self2 [symmetric])
  also have "\<dots> = int ?b - 256 + 4294967296"
    by (rule mod_pos_pos_trivial) (use b in linarith)+
  finally have "promote True ch mod 2 ^ 32 = int (4294967040 + ?b)"
    unfolding pr p32 by simp
  then show ?thesis by simp
qed

lemma stream_char_signed_high:
  assumes inv: "stream_inv s"
    and sz: "unat (mSize s) < 2 ^ 63"
    and high: "128 \<le> (of_char ch :: nat)"
  shows "\<exists>s'. stream_char True ch s = Some s' \<and>
              message_text s' = message_text s @ [CHR 0x5C, CHR ''x'', CHR ''f'', CHR ''f'']"
proof -
  let ?n = "4294967040 + (of_char ch :: nat)"
  let ?t = "[CHR 0x5C, CHR ''x'', CHR ''f'', CHR ''f'']"
  have i: "(of_char ch :: int) = int (of_char ch)" by (simp add: of_nat_of_char)
  have b: "(of_char ch :: nat) < 256" by simp
  have pr: "promote True ch = int (of_char ch) - 256"
    using high unfolding promote_def i by simp
  have c: "\<not> (32 \<le> promote True ch \<and> promote True ch < 127)"
    using b unfolding pr by linarith
  have t2: "take 2 (hex ?n) = ''ff''"
    by (rule take2_hex_high) (use b in linarith)+
  have "16 \<le> ?n" by linarith
  then have l2: "2 \<le> length (hex ?n)" by (rule length_hex_ge2)
  then have "fmt_02x ?n = hex ?n" by (simp add: fmt_02x_def)
  then have "take 4 ([CHR 0x5C, CHR ''x''] @ fmt_02x ?n) = [CHR 0x5C, CHR ''x''] @ take 2 (hex ?n)"
    by simp
  then have t4: "take 4 ([CHR 0x5C, CHR ''x''] @ fmt_02x ?n) = ?t"
    unfolding t2 by simp
  have "stream_char True ch s =
      (let (temp, ret) =
             snprintf 5 ([CHR 0x5C, CHR ''x''] @ fmt_02x (nat (promote True ch mod 2 ^ 32)))
       in append temp 4 s)"
    unfolding stream_char_def by (simp only: c if_False)
  also have "\<dots> = append (?t @ [NUL]) 4 s"
    unfolding promote_high [OF high] using t4 by (simp add: snprintf_def)
  finally have sc: "stream_char True ch s = append (?t @ [NUL]) 4 s" .
  from append_exact [OF inv sz, of 4 "?t @ [NUL]"]
  obtain s' where "append (?t @ [NUL]) 4 s = Some s'" "message_text s' = message_text s @ ?t"
    by auto
  then show ?thesis using sc by simp
qed

section \<open>The errno-decorated record\<close>

lemma append_cstr_returns:
  assumes inv: "stream_inv s"
    and short: "length (c_str m) \<le> 2147483647"
    and sz: "unat (mSize s) < 2 ^ 63"
  shows "\<exists>s'. append_cstr (Some m) s = Some s' \<and> stream_inv s' \<and>
              message_text s' = message_text s @ c_str m \<and>
              mParams s' = mParams s \<and>
              unat (mSize s') = unat (mSize s) + length (c_str m)"
proof (cases "c_str m = []")
  case True
  then show ?thesis using inv by (simp add: append_cstr_def)
next
  case False
  have ul: "unat (strlen m) = length (c_str m)"
    using short by (simp add: strlen_def unat_of_nat)
  have len: "strlen m \<noteq> 0" "strlen m \<le> INT32_MAX"
    using False short ul by (auto simp: word_le_nat_alt unat_INT32_MAX unat_eq_zero [symmetric]
        simp del: unat_eq_zero)
  have src: "unat (strlen m) \<le> length m"
    unfolding ul c_str_def by (rule length_takeWhile_le)
  from append_returns [OF inv len src sz]
  obtain r where r: "append m (strlen m) s = Some (appended s m (strlen m) r)"
    "mSize s + strlen m \<le> r" "unat r < 2 ^ 64 - 1"
    by blast
  have ns: "unat (mSize s + strlen m) = unat (mSize s) + unat (strlen m)"
    using ul short sz by (intro unat_add_lem [THEN iffD1]) simp
  note p = appended_props [OF inv ns src r(2,3)]
  have "append_cstr (Some m) s = Some (appended s m (strlen m) r)"
    using False r(1) by (simp add: append_cstr_def)
  moreover have "message_text (appended s m (strlen m) r) = message_text s @ c_str m"
    using p(2) by (simp add: ul c_str_prefix)
  moreover have "unat (mSize (appended s m (strlen m) r)) = unat (mSize s) + length (c_str m)"
    using ns ul by (simp add: appended_def)
  moreover have "mParams (appended s m (strlen m) r) = mParams s"
    by (simp add: appended_def)
  ultimately show ?thesis using p(1) by simp
qed

lemma c_str_prefix_literal: "c_str ''Error message: '' = ''Error message: ''"
  by (simp add: c_str_def NUL_def)

text \<open>
  C6: for a record constructed while \<^verbatim>\<open>errno\<close> held \<open>e\<close> (whatever was streamed
  into it since, and whatever \<^verbatim>\<open>errno\<close> holds by now), the destructor appends
  \<open>''Error message: ''\<close> and the description of \<open>e\<close> to the text, then dispatches
  the record; and when the destructor has run to its end (the process did not exit in
  the dispatch), \<^verbatim>\<open>errno\<close> is \<open>e\<close> again, whatever the dispatch did to it.
\<close>

theorem errno_restored:
  assumes "errno w0 = e"
    and "m = (PLOG f l sev w0)\<lparr>mStream := s\<rparr>"
    and "stream_inv s"
    and "unat (mSize s) < 2 ^ 62"
    and "length (c_str (strerror e)) \<le> 2147483647"
  shows "(\<exists>s2. message_text s2 = message_text s @ ''Error message: '' @ c_str (strerror e) \<and>
               unat (LogStream_size s2) = length (message_text s2) \<and>
               LogStream_params s2 = mParams s \<and>
               ErrnoLogMessage_dtor strerror recv m w =
                 Some (let w1 = logMessage recv (LogStream_params s2) (LogStream_string s2)
                                  (LogStream_size s2) w
                       in if exit_status w1 = None then w1\<lparr>errno := e\<rparr> else w1)) \<and>
         (\<forall>w'. ErrnoLogMessage_dtor strerror recv m w = Some w' \<longrightarrow>
               exit_status w' = None \<longrightarrow> errno w' = e)"
proof -
  have m: "mStream m = s" "mErrno m = e"
    using assms(1,2) by (simp_all add: PLOG_def ErrnoLogMessage_new_def)
  have sz: "unat (mSize s) < 2 ^ 63" using assms(4) by simp
  have "length (c_str ''Error message: '') \<le> 2147483647"
    by (simp add: c_str_prefix_literal)
  from append_cstr_returns [OF assms(3) this sz]
  obtain s1 where s1: "append_cstr (Some ''Error message: '') s = Some s1" "stream_inv s1"
    "message_text s1 = message_text s @ ''Error message: ''" "mParams s1 = mParams s"
    "unat (mSize s1) = unat (mSize s) + 15"
    by (auto simp: c_str_prefix_literal)
  have sz1: "unat (mSize s1) < 2 ^ 63" using s1(5) assms(4) by simp
  from append_cstr_returns [OF s1(2) assms(5) sz1]
  obtain s2 where s2: "append_cstr (Some (strerror e)) s1 = Some s2" "stream_inv s2"
    "message_text s2 = message_text s1 @ c_str (strerror e)" "mParams s2 = mParams s1"
    by blast
  have d: "ErrnoLogMessage_dtor strerror recv m w =
      Some (let w1 = logMessage recv (LogStream_params s2) (LogStream_string s2)
                       (LogStream_size s2) w
            in if exit_status w1 = None then w1\<lparr>errno := e\<rparr> else w1)"
    using s1(1) s2(1) m by (simp add: ErrnoLogMessage_dtor_def stream_cstr_def Let_def)
  have "message_text s2 = message_text s @ ''Error message: '' @ c_str (strerror e)"
    using s2(3) s1(3) by simp
  moreover have "unat (LogStream_size s2) = length (message_text s2)"
    using length_message_text [OF s2(2)] by (simp add: LogStream_size_def)
  moreover have "LogStream_params s2 = mParams s"
    using s2(4) s1(4) by (simp add: LogStream_params_def)
  moreover have "\<forall>w'. ErrnoLogMessage_dtor strerror recv m w = Some w' \<longrightarrow>
      exit_status w' = None \<longrightarrow> errno w' = e"
    unfolding d by (auto simp: Let_def split: if_splits)
  ultimately show ?thesis using d by blast
qed

theorem errno_restored_witness:
  "errno (process_start\<lparr>errno := 2\<rparr>) = 2 \<and>
   stream_inv (LogStream_new ''f.cc'' 10 LOG_ERROR) \<and>
   ErrnoLogMessage_dtor strerror_demo clobbering_sink
     (PLOG ''f.cc'' 10 LOG_ERROR (process_start\<lparr>errno := 2\<rparr>))
     (process_start\<lparr>gLogOutput := Some 1, errno := 7\<rparr>) =
   Some (process_start\<lparr>gLogOutput := Some 1,
           err_stream := ''Error message: No such file or directory'', errno := 2\<rparr>)"
  using errno_restored [where ?w0.0 = "process_start\<lparr>errno := 2\<rparr>" and e = 2
      and m = "PLOG ''f.cc'' 10 LOG_ERROR (process_start\<lparr>errno := 2\<rparr>)"
      and f = "''f.cc''" and l = 10 and sev = LOG_ERROR
      and s = "LogStream_new ''f.cc'' 10 LOG_ERROR"
      and strerror = strerror_demo and recv = clobbering_sink
      and w = "process_start\<lparr>gLogOutput := Some 1, errno := 7\<rparr>"]
  by (simp add: process_start_def PLOG_def ErrnoLogMessage_new_def ErrnoLogMessage_dtor_def
      stream_cstr_def append_cstr_def c_str_def NUL_def strlen_def strerror_demo_def
      append_def INT32_MAX_def LogStream_new_def grow_loop.simps grow_def LogStream_string_def
      LogStream_params_def LogStream_size_def logMessage_def clobbering_sink_def
      stream_inv_def Let_def)

end
